theory Spec2Isabelle
  imports Main "HOL-Library.AList"
begin

section \<open>The catalogue loader of \<^verbatim>\<open>carga_datos/load_data.py\<close>\<close>

text \<open>
  The script reads two JSON files and inserts their records through an ORM session:
  \<^verbatim>\<open>load_categories\<close>, \<^verbatim>\<open>load_products\<close> and \<^verbatim>\<open>main\<close>.
  The embedding keeps the three functions and their loops; the session, the logger and the
  files, which the Python reaches through globals, are passed explicitly.
\<close>

subsection \<open>Input files\<close>

text \<open>
  A file is absent (\<^verbatim>\<open>os.path.exists\<close> is false), or \<^verbatim>\<open>json.load\<close> raises on it, or it
  parses to an array. An element of the array that is a JSON object is read with
  \<^verbatim>\<open>.get(key)\<close>, which yields \<^verbatim>\<open>None\<close> for a key that is absent and for one whose
  value is null: a field is an \<open>option\<close>. Any other element has no \<^verbatim>\<open>get\<close>, and reading
  it raises \<^verbatim>\<open>AttributeError\<close>. The values of the fields have the types the interface
  of the files gives them: names are strings, stock is an integer. The loader never
  inspects a price, so its type is a parameter.
\<close>

datatype 'r item = Obj 'r | NonObj

datatype 'r json_file = Absent | Invalid | Json "'r item list"

record cat_data =
  c_name :: "string option"

record 'p prod_data =
  name :: "string option"
  price :: "'p option"
  stock :: "int option"
  category :: "string option"

text \<open>
  The exceptions \<^verbatim>\<open>except Exception\<close> can catch. The loaders of the model raise the first
  two; \<open>OtherError\<close> is any other class derived from \<^verbatim>\<open>Exception\<close>, by its name.
\<close>

datatype exn = JSONDecodeError | AttributeError | OtherError string

datatype 'a result = Return 'a | Raise exn

text \<open>Python's truth value of a name: \<^verbatim>\<open>None\<close> and the empty string are false.\<close>

fun truthy :: "string option \<Rightarrow> bool" where
  "truthy None = False"
| "truthy (Some s) = (s \<noteq> [])"

subsection \<open>The log\<close>

text \<open>
  Every call of the logger appends one entry: its level and its message, the message kept
  with the values its f-string interpolates.
\<close>

datatype level = INFO | WARNING | ERROR

datatype message =
    Starting
  | CouldNotConnect
  | CategoriesFileNotFound
  | ProcessingCategories nat
  | CategoriesLoaded nat nat
  | ProductsFileNotFound
  | ProcessingProducts nat
  | CategoryNotFound "string option" "string option"
  | ProductsLoaded nat nat
  | NoCategoriesLoaded
  | ErrorOccurred exn
  | Completed

subsection \<open>Storage and the session\<close>

text \<open>
  Modelled from the spec: the entity definitions \<^verbatim>\<open>models/category.py\<close> and
  \<^verbatim>\<open>models/product.py\<close> and the session factory of \<^verbatim>\<open>config/database.py\<close> are not
  among the sources. Section 6 of the specification gives the entities as Category (id,
  name) and Product (id, name, price, stock, category_id), identifiers assigned by storage,
  and the session as a transactional unit of work with add, flush (stage and assign the
  identifier without committing), query by field, commit, rollback and close.
  A table is the list of its rows in insertion order. A new row takes an identifier
  greater than every identifier of its table. Whether a query flushes what was added
  before it (the session's \<^verbatim>\<open>autoflush\<close>) is set where the factory is configured, so
  it is a field of the session that the model leaves open. Storage-side column defaults
  and constraints are outside the model: a row holds what the object held.
\<close>

datatype 'p model =
    CategoryModel "string option"
  | ProductModel "string option" "'p option" "int option" nat

record category_row =
  cat_id :: nat
  cat_name :: "string option"

record 'p product_row =
  prod_id :: nat
  prod_name :: "string option"
  prod_price :: "'p option"
  prod_stock :: "int option"
  category_id :: nat

record 'p database =
  categories :: "category_row list"
  products :: "'p product_row list"

record 'p session =
  stored :: "'p database"
  work :: "'p database"
  pending :: "'p model list"
  autoflush :: bool
  closed :: bool

definition next_id :: "nat list \<Rightarrow> nat" where
  "next_id ids = Suc (fold max ids 0)"

fun insert_row :: "'p model \<Rightarrow> 'p database \<Rightarrow> nat \<times> 'p database" where
  "insert_row (CategoryModel n) d =
     (let i = next_id (map cat_id (categories d))
      in (i, d\<lparr>categories := categories d @ [\<lparr>cat_id = i, cat_name = n\<rparr>]\<rparr>))"
| "insert_row (ProductModel n p k c) d =
     (let i = next_id (map prod_id (products d))
      in (i, d\<lparr>products := products d @
            [\<lparr>prod_id = i, prod_name = n, prod_price = p, prod_stock = k, category_id = c\<rparr>]\<rparr>))"

fun insert_all :: "'p model list \<Rightarrow> 'p database \<Rightarrow> nat list \<times> 'p database" where
  "insert_all [] d = ([], d)"
| "insert_all (m # ms) d =
     (case insert_row m d of (i, d') \<Rightarrow>
        (case insert_all ms d' of (js, d'') \<Rightarrow> (i # js, d'')))"

definition SessionLocal :: "bool \<Rightarrow> 'p database \<Rightarrow> 'p session" where
  "SessionLocal af d =
     \<lparr>stored = d, work = d, pending = [], autoflush = af, closed = False\<rparr>"

definition db_add :: "'p model \<Rightarrow> 'p session \<Rightarrow> 'p session" where
  "db_add m s = s\<lparr>pending := pending s @ [m]\<rparr>"

text \<open>
  \<open>db_flush\<close> writes the pending objects in the order they were added and returns the
  identifiers they received, in that order: the Python reads them from the objects
  afterwards (\<^verbatim>\<open>category.id\<close>).
\<close>

definition db_flush :: "'p session \<Rightarrow> nat list \<times> 'p session" where
  "db_flush s =
     (case insert_all (pending s) (work s) of
        (ids, d) \<Rightarrow> (ids, s\<lparr>work := d, pending := []\<rparr>))"

definition db_commit :: "'p session \<Rightarrow> 'p session" where
  "db_commit s = (let s' = snd (db_flush s) in s'\<lparr>stored := work s'\<rparr>)"

definition db_rollback :: "'p session \<Rightarrow> 'p session" where
  "db_rollback s = s\<lparr>work := stored s, pending := []\<rparr>"

definition db_close :: "'p session \<Rightarrow> 'p session" where
  "db_close s = s\<lparr>work := stored s, pending := [], closed := True\<rparr>"

definition before_query :: "'p session \<Rightarrow> 'p session" where
  "before_query s = (if autoflush s then snd (db_flush s) else s)"

text \<open>
  \<^verbatim>\<open>db.query(CategoryModel).filter(CategoryModel.name == name).first()\<close> and the same
  for products: the first row of the table with that name, if there is one.
\<close>

definition query_category :: "string option \<Rightarrow> 'p session \<Rightarrow> category_row option \<times> 'p session" where
  "query_category n s =
     (let s' = before_query s
      in (find (\<lambda>c. cat_name c = n) (categories (work s')), s'))"

definition query_product :: "string option \<Rightarrow> 'p session \<Rightarrow> 'p product_row option \<times> 'p session" where
  "query_product n s =
     (let s' = before_query s
      in (find (\<lambda>p. prod_name p = n) (products (work s')), s'))"

subsection \<open>The state the functions share\<close>

record 'p state =
  db :: "'p session"
  logger :: "(level \<times> message) list"

definition logger_info :: "message \<Rightarrow> 'p state \<Rightarrow> 'p state" where
  "logger_info m st = st\<lparr>logger := logger st @ [(INFO, m)]\<rparr>"

definition logger_warning :: "message \<Rightarrow> 'p state \<Rightarrow> 'p state" where
  "logger_warning m st = st\<lparr>logger := logger st @ [(WARNING, m)]\<rparr>"

definition logger_error :: "message \<Rightarrow> 'p state \<Rightarrow> 'p state" where
  "logger_error m st = st\<lparr>logger := logger st @ [(ERROR, m)]\<rparr>"

subsection \<open>\<^verbatim>\<open>load_categories\<close>\<close>

text \<open>
  The local variables of the loop. \<open>category_map\<close> is the dict, kept as an association
  list in insertion order; \<^verbatim>\<open>category_map[name] = category.id\<close> is \<open>AList.update\<close>.
\<close>

record cat_vars =
  category_map :: "(string option \<times> nat) list"
  new_count :: nat
  existing_count :: nat

fun category_step :: "cat_data item \<Rightarrow> cat_vars \<Rightarrow> 'p state \<Rightarrow> cat_vars result \<times> 'p state" where
  "category_step NonObj v st = (Raise AttributeError, st)"
| "category_step (Obj cat_data) v st =
     (let name = c_name cat_data in
      if \<not> truthy name then (Return v, st)
      else
        (case query_category name (db st) of
           (None, s1) \<Rightarrow>
             (case db_flush (db_add (CategoryModel name) s1) of
                (ids, s2) \<Rightarrow>
                  (Return (v\<lparr>category_map := AList.update name (last ids) (category_map v),
                             new_count := new_count v + 1\<rparr>),
                   st\<lparr>db := s2\<rparr>))
         | (Some c, s1) \<Rightarrow>
             (Return (v\<lparr>category_map := AList.update name (cat_id c) (category_map v),
                        existing_count := existing_count v + 1\<rparr>),
              st\<lparr>db := s1\<rparr>)))"

fun categories_loop :: "cat_data item list \<Rightarrow> cat_vars \<Rightarrow> 'p state \<Rightarrow> cat_vars result \<times> 'p state" where
  "categories_loop [] v st = (Return v, st)"
| "categories_loop (x # xs) v st =
     (case category_step x v st of
        (Return v', st') \<Rightarrow> categories_loop xs v' st'
      | (Raise e, st') \<Rightarrow> (Raise e, st'))"

fun load_categories :: "cat_data json_file \<Rightarrow> 'p state \<Rightarrow> (string option \<times> nat) list result \<times> 'p state" where
  "load_categories Absent st = (Return [], logger_error CategoriesFileNotFound st)"
| "load_categories Invalid st = (Raise JSONDecodeError, st)"
| "load_categories (Json categories_data) st =
     (case categories_loop categories_data
             \<lparr>category_map = [], new_count = 0, existing_count = 0\<rparr>
             (logger_info (ProcessingCategories (length categories_data)) st) of
        (Raise e, st') \<Rightarrow> (Raise e, st')
      | (Return v, st') \<Rightarrow>
          (Return (category_map v),
           logger_info (CategoriesLoaded (new_count v) (existing_count v))
             (st'\<lparr>db := db_commit (db st')\<rparr>)))"

subsection \<open>\<^verbatim>\<open>load_products\<close>\<close>

record prod_vars =
  p_new_count :: nat
  skipped_count :: nat

fun product_step ::
  "(string option \<times> nat) list \<Rightarrow> 'p prod_data item \<Rightarrow> prod_vars \<Rightarrow> 'p state \<Rightarrow> prod_vars result \<times> 'p state" where
  "product_step cmap NonObj v st = (Raise AttributeError, st)"
| "product_step cmap (Obj prod_data) v st =
     (let category_name = category prod_data in
      case map_of cmap category_name of
        None \<Rightarrow>
          (Return (v\<lparr>skipped_count := skipped_count v + 1\<rparr>),
           logger_warning (CategoryNotFound category_name (name prod_data)) st)
      | Some cid \<Rightarrow>
          (let product_name = name prod_data in
           case query_product product_name (db st) of
             (Some existing_product, s1) \<Rightarrow>
               (Return (v\<lparr>skipped_count := skipped_count v + 1\<rparr>), st\<lparr>db := s1\<rparr>)
           | (None, s1) \<Rightarrow>
               (Return (v\<lparr>p_new_count := p_new_count v + 1\<rparr>),
                st\<lparr>db := db_add (ProductModel product_name (price prod_data) (stock prod_data) cid) s1\<rparr>)))"

fun products_loop ::
  "(string option \<times> nat) list \<Rightarrow> 'p prod_data item list \<Rightarrow> prod_vars \<Rightarrow> 'p state \<Rightarrow> prod_vars result \<times> 'p state" where
  "products_loop cmap [] v st = (Return v, st)"
| "products_loop cmap (x # xs) v st =
     (case product_step cmap x v st of
        (Return v', st') \<Rightarrow> products_loop cmap xs v' st'
      | (Raise e, st') \<Rightarrow> (Raise e, st'))"

fun load_products ::
  "'p prod_data json_file \<Rightarrow> (string option \<times> nat) list \<Rightarrow> 'p state \<Rightarrow> unit result \<times> 'p state" where
  "load_products Absent cmap st = (Return (), logger_error ProductsFileNotFound st)"
| "load_products Invalid cmap st = (Raise JSONDecodeError, st)"
| "load_products (Json products_data) cmap st =
     (case products_loop cmap products_data \<lparr>p_new_count = 0, skipped_count = 0\<rparr>
             (logger_info (ProcessingProducts (length products_data)) st) of
        (Raise e, st') \<Rightarrow> (Raise e, st')
      | (Return v, st') \<Rightarrow>
          (Return (),
           logger_info (ProductsLoaded (p_new_count v) (skipped_count v))
             (st'\<lparr>db := db_commit (db st')\<rparr>)))"

subsection \<open>\<^verbatim>\<open>main\<close>\<close>

text \<open>
  \<open>check_connection\<close> is the boolean the connectivity check returns and \<open>af\<close> the
  autoflush setting of the session factory. The result is the exit code of the process,
  the session if one was opened, and the log. The \<^verbatim>\<open>except\<close> clause is \<open>handler\<close>;
  the \<^verbatim>\<open>finally\<close> clause closes the session on both paths.
\<close>

record 'p run =
  exit_code :: int
  session :: "'p session option"
  run_log :: "(level \<times> message) list"

definition handler :: "exn \<Rightarrow> 'p state \<Rightarrow> 'p state" where
  "handler e st = (let st' = logger_error (ErrorOccurred e) st in st'\<lparr>db := db_rollback (db st')\<rparr>)"

definition try_block :: "cat_data json_file \<Rightarrow> 'p prod_data json_file \<Rightarrow> 'p state \<Rightarrow> 'p state" where
  "try_block cf pf st =
     (case load_categories cf st of
        (Raise e, st1) \<Rightarrow> handler e st1
      | (Return cmap, st1) \<Rightarrow>
          if cmap \<noteq> [] then
            (case load_products pf cmap st1 of
               (Raise e, st2) \<Rightarrow> handler e st2
             | (Return u, st2) \<Rightarrow> st2)
          else logger_warning NoCategoriesLoaded st1)"

definition main :: "bool \<Rightarrow> bool \<Rightarrow> cat_data json_file \<Rightarrow> 'p prod_data json_file \<Rightarrow> 'p database \<Rightarrow> 'p run" where
  "main check_connection af cf pf d =
     (let lg = [(INFO, Starting)] in
      if \<not> check_connection then
        \<lparr>exit_code = 1, session = None, run_log = lg @ [(ERROR, CouldNotConnect)]\<rparr>
      else
        (let st = try_block cf pf \<lparr>db = SessionLocal af d, logger = lg\<rparr>;
             st' = st\<lparr>db := db_close (db st)\<rparr>
         in \<lparr>exit_code = 0, session = Some (db st'), run_log = logger st' @ [(INFO, Completed)]\<rparr>))"

subsection \<open>The \<^verbatim>\<open>try\<close> statement with its two calls left open\<close>

text \<open>
  What \<open>main\<close> does with an exception does not depend on which call raised it, at which
  statement, or in which state. \<open>try_with\<close> is the \<^verbatim>\<open>try\<close> statement of \<open>main\<close> with any
  two functions in the places of \<open>load_categories\<close> and \<open>load_products\<close>; \<open>try_block\<close> is
  \<open>try_with\<close> at the two loaders.
\<close>

definition try_with ::
  "('p state \<Rightarrow> (string option \<times> nat) list result \<times> 'p state) \<Rightarrow>
   ((string option \<times> nat) list \<Rightarrow> 'p state \<Rightarrow> unit result \<times> 'p state) \<Rightarrow> 'p state \<Rightarrow> 'p state" where
  "try_with lc lp st =
     (case lc st of
        (Raise e, st1) \<Rightarrow> handler e st1
      | (Return cmap, st1) \<Rightarrow>
          if cmap \<noteq> [] then
            (case lp cmap st1 of
               (Raise e, st2) \<Rightarrow> handler e st2
             | (Return u, st2) \<Rightarrow> st2)
          else logger_warning NoCategoriesLoaded st1)"

subsection \<open>Referential integrity\<close>

text \<open>
  A database is referentially intact when the \<open>category_id\<close> of every product row is the
  identifier of a category row. \<open>database_after\<close> is the committed database a run of
  \<open>main\<close> leaves: that of its session, or the one it started from when no session was
  opened.
\<close>

definition cat_ids :: "'p database \<Rightarrow> nat set" where
  "cat_ids d = cat_id ` set (categories d)"

definition referential_integrity :: "'p database \<Rightarrow> bool" where
  "referential_integrity d = (\<forall>p \<in> set (products d). category_id p \<in> cat_ids d)"

definition database_after :: "'p database \<Rightarrow> 'p run \<Rightarrow> 'p database" where
  "database_after d r = (case session r of None \<Rightarrow> d | Some s \<Rightarrow> stored s)"

text \<open>
  The invariant of the session behind it: the committed tables and the tables of the
  transaction are intact, every staged Product names a category row of the transaction,
  and so does every identifier in the category map.
\<close>

fun resolves :: "'p database \<Rightarrow> 'p model \<Rightarrow> bool" where
  "resolves d (CategoryModel n) = True"
| "resolves d (ProductModel n p k c) = (c \<in> cat_ids d)"

definition session_integrity :: "'p session \<Rightarrow> bool" where
  "session_integrity s =
     (referential_integrity (stored s) \<and> referential_integrity (work s) \<and>
      (\<forall>m \<in> set (pending s). resolves (work s) m))"

definition map_resolves :: "(string option \<times> nat) list \<Rightarrow> 'p session \<Rightarrow> bool" where
  "map_resolves cmap s = (\<forall>k i. map_of cmap k = Some i \<longrightarrow> i \<in> cat_ids (work s))"

subsection \<open>A second run\<close>


fun missing_category_warnings ::
  "(string option \<times> nat) list \<Rightarrow> 'p prod_data item list \<Rightarrow> (level \<times> message) list" where
  "missing_category_warnings cmap [] = []"
| "missing_category_warnings cmap (NonObj # xs) = missing_category_warnings cmap xs"
| "missing_category_warnings cmap (Obj prod_data # xs) =
     (if category prod_data \<in> fst ` set cmap then []
      else [(WARNING, CategoryNotFound (category prod_data) (name prod_data))])
     @ missing_category_warnings cmap xs"




section \<open>Properties of the loader\<close>

subsection \<open>Unfolding the session and the logger\<close>

lemmas session_ops = SessionLocal_def db_add_def db_flush_def db_commit_def db_rollback_def
  db_close_def before_query_def query_category_def query_product_def next_id_def
lemmas logger_ops = logger_info_def logger_warning_def logger_error_def

subsection \<open>A flush only appends rows\<close>

lemma insert_all_append:
  "insert_all (ms @ ns) d =
     (case insert_all ms d of (is, d') \<Rightarrow>
        (case insert_all ns d' of (js, d'') \<Rightarrow> (is @ js, d'')))"
  by (induction ms arbitrary: d) (auto split: prod.splits)

lemma insert_row_products: "\<exists>new. products (snd (insert_row m d)) = products d @ new"
  by (cases m) (simp_all add: Let_def)


lemma insert_all_products: "\<exists>new. products (snd (insert_all ms d)) = products d @ new"
proof (induction ms arbitrary: d)
  case Nil
  then show ?case by simp
next
  case (Cons m ms)
  obtain n1 where n1: "products (snd (insert_row m d)) = products d @ n1"
    using insert_row_products by blast
  obtain n2 where n2: "products (snd (insert_all ms (snd (insert_row m d)))) = products (snd (insert_row m d)) @ n2"
    using Cons.IH by blast
  show ?case using n1 n2 by (auto split: prod.splits)
qed


lemma before_query_stored: "stored (before_query s) = stored s"
  by (simp add: before_query_def db_flush_def split: prod.splits)

lemma before_query_products: "\<exists>new. products (work (before_query s)) = products (work s) @ new"
  using insert_all_products [of "pending s" "work s"]
  by (auto simp: before_query_def db_flush_def split: prod.splits)


subsection \<open>The keys of the category map\<close>

text \<open>
  \<open>load_categories\<close> stores a name in the map only behind its guard
  \<^verbatim>\<open>if not name: continue\<close>, so every key of the map it returns is a non-empty string.
\<close>

lemma category_step_map:
  assumes "category_step (Obj r) v st = (Return v', st')" "truthy (c_name r)"
  shows "\<exists>i. category_map v' = AList.update (c_name r) i (category_map v)"
  using assms by (auto simp: Let_def split: prod.splits option.splits)

lemma category_step_dom:
  assumes "category_step x v st = (Return v', st')"
  shows "fst ` set (category_map v') =
         fst ` set (category_map v) \<union> (case x of Obj r \<Rightarrow> if truthy (c_name r) then {c_name r} else {} | NonObj \<Rightarrow> {})"
proof (cases x)
  case NonObj
  with assms show ?thesis by simp
next
  case (Obj r)
  show ?thesis
  proof (cases "truthy (c_name r)")
    case False
    with assms Obj show ?thesis by simp
  next
    case True
    obtain i where "category_map v' = AList.update (c_name r) i (category_map v)"
      using category_step_map assms Obj True by blast
    then have "fst ` set (category_map v') = {c_name r} \<union> fst ` set (category_map v)"
      by (simp only: dom_update)
    then show ?thesis using Obj True by auto
  qed
qed

lemma category_step_keys:
  assumes "category_step x v st = (Return v', st')" "\<forall>k \<in> fst ` set (category_map v). truthy k"
  shows "\<forall>k \<in> fst ` set (category_map v'). truthy k"
proof
  fix k assume "k \<in> fst ` set (category_map v')"
  then have "k \<in> fst ` set (category_map v) \<union>
      (case x of Obj r \<Rightarrow> if truthy (c_name r) then {c_name r} else {} | NonObj \<Rightarrow> {})"
    using category_step_dom [OF assms(1)] by simp
  then show "truthy k" using assms(2) by (auto split: item.splits if_splits)
qed

lemma categories_loop_keys:
  assumes "categories_loop xs v st = (Return v', st')" "\<forall>k \<in> fst ` set (category_map v). truthy k"
  shows "\<forall>k \<in> fst ` set (category_map v'). truthy k"
  using assms
proof (induction xs arbitrary: v st)
  case Nil
  then show ?case by simp
next
  case (Cons x xs)
  obtain r st1 where step: "category_step x v st = (r, st1)" by (cases "category_step x v st")
  show ?case
  proof (cases r)
    case (Return v1)
    have "\<forall>k \<in> fst ` set (category_map v1). truthy k"
      using category_step_keys [of x v st v1 st1] step Return Cons.prems(2) by simp
    moreover have "categories_loop xs v1 st1 = (Return v', st')"
      using Cons.prems(1) step Return by simp
    ultimately show ?thesis using Cons.IH by blast
  next
    case (Raise e)
    with Cons.prems(1) step show ?thesis by simp
  qed
qed

lemma load_categories_keys:
  assumes "load_categories cf st = (Return cmap, st')"
  shows "\<forall>k \<in> fst ` set cmap. truthy k"
proof (cases cf)
  case Absent
  with assms show ?thesis by auto
next
  case Invalid
  with assms show ?thesis by simp
next
  case (Json xs)
  obtain r st1 where loop: "categories_loop xs \<lparr>category_map = [], new_count = 0, existing_count = 0\<rparr>
      (logger_info (ProcessingCategories (length xs)) st) = (r, st1)"
    by (cases "categories_loop xs \<lparr>category_map = [], new_count = 0, existing_count = 0\<rparr>
      (logger_info (ProcessingCategories (length xs)) st)")
  show ?thesis
  proof (cases r)
    case (Return v)
    have "cmap = category_map v" using assms Json loop Return by simp
    moreover have "\<forall>k \<in> fst ` set (category_map v). truthy k"
      using categories_loop_keys [OF loop [unfolded Return]] by simp
    ultimately show ?thesis by simp
  next
    case (Raise e)
    with assms Json loop show ?thesis by simp
  qed
qed

subsection \<open>Records of the products file\<close>

text \<open>
  The loop body on a record whose category is not a key of the map: one warning that
  carries the category and the product's name, one more skipped record, and the session
  as it was.
\<close>

lemma missing_category_step:
  assumes "category prod_data \<notin> fst ` set cmap"
  shows "product_step cmap (Obj prod_data) v st =
     (Return (v\<lparr>skipped_count := skipped_count v + 1\<rparr>),
      st\<lparr>logger := logger st @
            [(WARNING, CategoryNotFound (category prod_data) (name prod_data))]\<rparr>)"
proof -
  have "map_of cmap (category prod_data) = None"
    using assms by (simp add: map_of_eq_None_iff)
  then show ?thesis by (simp add: logger_warning_def)
qed

text \<open>
  C1, as stated: a record whose category resolves and whose name is new, with no
  \<^verbatim>\<open>stock\<close> key, gives a staged Product with stock 0. The code passes
  \<^verbatim>\<open>prod_data.get("stock")\<close> to the constructor, which is \<^verbatim>\<open>None\<close> for such a record:
  the staged object holds \<^verbatim>\<open>None\<close>, not 0. The default 0 is that of \<^verbatim>\<open>ProductSchema\<close>,
  which the loader does not call.
\<close>

theorem stock_default_counterexample:
  "pending (db (snd (product_step [(Some ''Books'', 1)]
     (Obj \<lparr>name = Some ''Dune'', price = Some ''15.5'', stock = None, category = Some ''Books''\<rparr>)
     \<lparr>p_new_count = 0, skipped_count = 0\<rparr>
     \<lparr>db = SessionLocal True \<lparr>categories = [\<lparr>cat_id = 1, cat_name = Some ''Books''\<rparr>], products = []\<rparr>,
      logger = []\<rparr>)))
   = [ProductModel (Some ''Dune'') (Some ''15.5'') None 1]
   \<and> ProductModel (Some ''Dune'') (Some ''15.5'') None 1 \<noteq> ProductModel (Some ''Dune'') (Some ''15.5'') (Some 0) 1"
  by (simp add: session_ops Let_def)

text \<open>
  C1, amended: for a record whose category resolves to \<open>cid\<close> and whose name no product
  row has, the loop body stages exactly one Product, built from the record's name, price
  and stock as they were read and from \<open>cid\<close>, and counts it as new. The stock of the
  staged Product is the record's: \<^verbatim>\<open>None\<close> when the key is absent.
\<close>

theorem staged_product_keeps_stock:
  assumes "map_of cmap (category prod_data) = Some cid"
      and "name prod_data \<notin> prod_name ` set (products (work (before_query (db st))))"
  shows "product_step cmap (Obj prod_data) v st =
     (Return (v\<lparr>p_new_count := p_new_count v + 1\<rparr>),
      st\<lparr>db := db_add (ProductModel (name prod_data) (price prod_data) (stock prod_data) cid)
                  (before_query (db st))\<rparr>)"
proof -
  have "find (\<lambda>p. prod_name p = name prod_data) (products (work (before_query (db st)))) = None"
    using assms(2) by (force simp: find_None_iff)
  then show ?thesis using assms(1) by (simp add: query_product_def Let_def)
qed

theorem staged_product_keeps_stock_witness:
  "product_step [(Some ''Books'', 1)]
     (Obj \<lparr>name = Some ''Dune'', price = Some ''15.5'', stock = None, category = Some ''Books''\<rparr>)
     \<lparr>p_new_count = 0, skipped_count = 0\<rparr>
     \<lparr>db = SessionLocal True \<lparr>categories = [\<lparr>cat_id = 1, cat_name = Some ''Books''\<rparr>], products = []\<rparr>,
      logger = []\<rparr> =
   (Return \<lparr>p_new_count = 1, skipped_count = 0\<rparr>,
    \<lparr>db = \<lparr>stored = \<lparr>categories = [\<lparr>cat_id = 1, cat_name = Some ''Books''\<rparr>], products = []\<rparr>,
            work = \<lparr>categories = [\<lparr>cat_id = 1, cat_name = Some ''Books''\<rparr>], products = []\<rparr>,
            pending = [ProductModel (Some ''Dune'') (Some ''15.5'') None 1],
            autoflush = True, closed = False\<rparr>,
     logger = []\<rparr>)"
  using staged_product_keeps_stock [of "[(Some ''Books'', 1)]"
      "\<lparr>name = Some ''Dune'', price = Some ''15.5'', stock = None, category = Some ''Books''\<rparr>" 1
      "\<lparr>db = SessionLocal True \<lparr>categories = [\<lparr>cat_id = 1, cat_name = Some ''Books''\<rparr>], products = []\<rparr>,
      logger = []\<rparr>" "\<lparr>p_new_count = 0, skipped_count = 0\<rparr>"]
  by (simp add: session_ops)

text \<open>
  The loop body on a record whose name a product row of the session has: one more
  skipped record, nothing staged for it, nothing committed, every row in place.
\<close>

lemma existing_product_step:
  assumes "p \<in> set (products (work (db st)))" and "prod_name p = name prod_data"
  shows "\<exists>st'. product_step cmap (Obj prod_data) v st =
            (Return (v\<lparr>skipped_count := skipped_count v + 1\<rparr>), st')
          \<and> (db st' = db st \<or> db st' = before_query (db st))
          \<and> stored (db st') = stored (db st)
          \<and> (\<exists>new. products (work (db st')) = products (work (db st)) @ new)"
proof (cases "map_of cmap (category prod_data)")
  case None
  then show ?thesis by (simp add: logger_warning_def)
next
  case (Some cid)
  obtain new where new: "products (work (before_query (db st))) = products (work (db st)) @ new"
    using before_query_products by blast
  then have "p \<in> set (products (work (before_query (db st))))"
    using assms(1) by simp
  then have "find (\<lambda>q. prod_name q = name prod_data) (products (work (before_query (db st)))) \<noteq> None"
    using assms(2) by (auto simp: find_None_iff)
  then obtain q where "find (\<lambda>q. prod_name q = name prod_data) (products (work (before_query (db st)))) = Some q"
    by blast
  then have "product_step cmap (Obj prod_data) v st =
      (Return (v\<lparr>skipped_count := skipped_count v + 1\<rparr>), st\<lparr>db := before_query (db st)\<rparr>)"
    using Some by (simp add: query_product_def Let_def)
  then show ?thesis using new by (simp add: before_query_stored)
qed

subsection \<open>Records of the categories file\<close>

text \<open>A new identifier is greater than every identifier of its table, so it is fresh.\<close>

lemma fold_max_ge: "(m::nat) \<le> fold max xs m"
  by (induction xs arbitrary: m) (auto intro: order_trans [OF max.cobounded2])

lemma fold_max_mem: "x \<in> set xs \<Longrightarrow> (x::nat) \<le> fold max xs m"
proof (induction xs arbitrary: m)
  case Nil
  then show ?case by simp
next
  case (Cons y ys)
  show ?case
  proof (cases "x = y")
    case True
    have "x \<le> max y m" using True by simp
    also have "\<dots> \<le> fold max ys (max y m)" by (rule fold_max_ge)
    finally show ?thesis by simp
  next
    case False
    then have "x \<in> set ys" using Cons.prems by simp
    then show ?thesis using Cons.IH by simp
  qed
qed

lemma next_id_fresh: "next_id ids \<notin> set ids"
proof
  assume "next_id ids \<in> set ids"
  then have "next_id ids \<le> fold max ids 0" by (rule fold_max_mem)
  then show False by (simp add: next_id_def)
qed

lemma nameless_category_step:
  "\<not> truthy (c_name cat_data) \<Longrightarrow> category_step (Obj cat_data) v st = (Return v, st)"
  by simp

lemma insert_all_snoc_category:
  "insert_all (ms @ [CategoryModel n]) d =
     (fst (insert_all ms d) @ [next_id (map cat_id (categories (snd (insert_all ms d))))],
      (snd (insert_all ms d))\<lparr>categories := categories (snd (insert_all ms d)) @
         [\<lparr>cat_id = next_id (map cat_id (categories (snd (insert_all ms d)))), cat_name = n\<rparr>]\<rparr>)"
  by (simp add: insert_all_append Let_def split: prod.splits)

lemma db_flush_before_query: "snd (db_flush (before_query s)) = snd (db_flush s)"
  by (simp add: before_query_def db_flush_def split: prod.splits)

lemma new_category_step:
  assumes "truthy (c_name cat_data)"
      and "c_name cat_data \<notin> cat_name ` set (categories (work (before_query (db st))))"
  shows "category_step (Obj cat_data) v st =
     (Return (v\<lparr>category_map := AList.update (c_name cat_data)
                  (next_id (map cat_id (categories (work (snd (db_flush (db st)))))))
                  (category_map v),
                new_count := new_count v + 1\<rparr>),
      st\<lparr>db := (snd (db_flush (db st)))
          \<lparr>work := (work (snd (db_flush (db st))))
             \<lparr>categories := categories (work (snd (db_flush (db st)))) @
                [\<lparr>cat_id = next_id (map cat_id (categories (work (snd (db_flush (db st)))))),
                  cat_name = c_name cat_data\<rparr>]\<rparr>\<rparr>\<rparr>)"
proof -
  have none: "find (\<lambda>c. cat_name c = c_name cat_data) (categories (work (before_query (db st)))) = None"
    using assms(2) by (force simp: find_None_iff)
  have fl: "db_flush (db_add (CategoryModel (c_name cat_data)) (before_query (db st))) =
      (fst (insert_all (pending (before_query (db st))) (work (before_query (db st)))) @
         [next_id (map cat_id (categories (work (snd (db_flush (before_query (db st)))))))],
       (snd (db_flush (before_query (db st))))
          \<lparr>work := (work (snd (db_flush (before_query (db st)))))
             \<lparr>categories := categories (work (snd (db_flush (before_query (db st))))) @
                [\<lparr>cat_id = next_id (map cat_id (categories (work (snd (db_flush (before_query (db st))))))),
                  cat_name = c_name cat_data\<rparr>]\<rparr>\<rparr>)"
    by (simp add: db_flush_def db_add_def insert_all_snoc_category split: prod.splits)
  show ?thesis
    using assms(1) none
    by (simp add: query_category_def Let_def fl db_flush_before_query)
qed

lemma existing_category_step:
  assumes "truthy (c_name cat_data)"
      and "find (\<lambda>c. cat_name c = c_name cat_data) (categories (work (before_query (db st)))) = Some c"
  shows "category_step (Obj cat_data) v st =
     (Return (v\<lparr>category_map := AList.update (c_name cat_data) (cat_id c) (category_map v),
                existing_count := existing_count v + 1\<rparr>),
      st\<lparr>db := before_query (db st)\<rparr>)"
  using assms by (simp add: query_category_def Let_def)

text \<open>
  The loop body of \<open>load_categories\<close> on one record, with \<open>n\<close> the record's name,
  \<open>s1\<close> the session as the query sees it and \<open>s2\<close> the session with everything pending
  flushed (both are the session itself when nothing is pending):
  \<^item> a record with no name, a null name or an empty name changes nothing: no counter, no
    entry of the map, no row, no log entry;
  \<^item> when no category row has the name, a row with a fresh identifier \<open>cid\<close> is appended
    to the table of the transaction and not to the committed one, \<open>new_count\<close> grows by
    one and the map takes \<open>n \<mapsto> cid\<close>;
  \<^item> when the query finds a row \<open>c\<close> with the name, \<open>existing_count\<close> grows by one and
    the map takes \<open>n \<mapsto> cat_id c\<close>;
  \<^item> in both cases the map after the record is the map before it with the entry of \<open>n\<close>
    replaced: a later record with the same name overwrites what an earlier one stored.
\<close>

lemma category_step_cases:
  fixes cat_data :: cat_data and v :: cat_vars and st :: "'p state"
  defines "n \<equiv> c_name cat_data"
      and "s1 \<equiv> before_query (db st)"
      and "s2 \<equiv> snd (db_flush (db st))"
      and "cid \<equiv> next_id (map cat_id (categories (work (snd (db_flush (db st))))))"
  shows
   "(\<not> truthy n \<longrightarrow> category_step (Obj cat_data) v st = (Return v, st))
  \<and> (truthy n \<and> n \<notin> cat_name ` set (categories (work s1)) \<longrightarrow>
       category_step (Obj cat_data) v st =
         (Return (v\<lparr>category_map := AList.update n cid (category_map v),
                    new_count := new_count v + 1\<rparr>),
          st\<lparr>db := s2\<lparr>work := (work s2)\<lparr>categories := categories (work s2) @
                         [\<lparr>cat_id = cid, cat_name = n\<rparr>]\<rparr>\<rparr>\<rparr>)
       \<and> cid \<notin> cat_id ` set (categories (work s2))
       \<and> stored s2 = stored (db st) \<and> pending s2 = [])
  \<and> (\<forall>c. truthy n \<and> find (\<lambda>c. cat_name c = n) (categories (work s1)) = Some c \<longrightarrow>
       category_step (Obj cat_data) v st =
         (Return (v\<lparr>category_map := AList.update n (cat_id c) (category_map v),
                    existing_count := existing_count v + 1\<rparr>),
          st\<lparr>db := s1\<rparr>)
       \<and> c \<in> set (categories (work s1)) \<and> cat_name c = n)
  \<and> (\<forall>v' st'. truthy n \<and> category_step (Obj cat_data) v st = (Return v', st') \<longrightarrow>
       (\<exists>i. map_of (category_map v') = (map_of (category_map v))(n \<mapsto> i)))"
proof (intro conjI impI allI)
  assume "\<not> truthy n"
  then show "category_step (Obj cat_data) v st = (Return v, st)"
    unfolding n_def by (rule nameless_category_step)
next
  assume a: "truthy n \<and> n \<notin> cat_name ` set (categories (work s1))"
  show "category_step (Obj cat_data) v st =
         (Return (v\<lparr>category_map := AList.update n cid (category_map v),
                    new_count := new_count v + 1\<rparr>),
          st\<lparr>db := s2\<lparr>work := (work s2)\<lparr>categories := categories (work s2) @
                         [\<lparr>cat_id = cid, cat_name = n\<rparr>]\<rparr>\<rparr>\<rparr>)"
    using a new_category_step [of cat_data st v] unfolding n_def s1_def s2_def cid_def by blast
  show "cid \<notin> cat_id ` set (categories (work s2))"
    using next_id_fresh [of "map cat_id (categories (work s2))"] unfolding cid_def s2_def by simp
  show "stored s2 = stored (db st)"
    unfolding s2_def by (simp add: db_flush_def split: prod.splits)
  show "pending s2 = []"
    unfolding s2_def by (simp add: db_flush_def split: prod.splits)
next
  fix c
  assume a: "truthy n \<and> find (\<lambda>c. cat_name c = n) (categories (work s1)) = Some c"
  show "category_step (Obj cat_data) v st =
         (Return (v\<lparr>category_map := AList.update n (cat_id c) (category_map v),
                    existing_count := existing_count v + 1\<rparr>),
          st\<lparr>db := s1\<rparr>)"
    using a existing_category_step [of cat_data st c v] unfolding n_def s1_def by blast
  show "c \<in> set (categories (work s1))"
    using a by (auto simp: find_Some_iff)
  show "cat_name c = n"
    using a by (auto simp: find_Some_iff)
next
  fix v' st'
  assume a: "truthy n \<and> category_step (Obj cat_data) v st = (Return v', st')"
  then obtain i where "category_map v' = AList.update n i (category_map v)"
    using category_step_map [of cat_data v st v' st'] unfolding n_def by blast
  then have "map_of (category_map v') = (map_of (category_map v))(n \<mapsto> i)"
    by (simp add: update_conv')
  then show "\<exists>i. map_of (category_map v') = (map_of (category_map v))(n \<mapsto> i)" ..
qed

subsection \<open>Nothing is committed inside a loop\<close>

text \<open>
  The loops flush and stage; only the \<^verbatim>\<open>db.commit()\<close> after a loop writes the committed
  tables. A loader that raises has therefore committed nothing of its own.
\<close>

lemma db_flush_stored: "stored (snd (db_flush s)) = stored s"
  by (simp add: db_flush_def split: prod.splits)

lemma category_step_stored: "stored (db (snd (category_step x v st))) = stored (db st)"
proof (cases x)
  case NonObj
  then show ?thesis by simp
next
  case (Obj r)
  show ?thesis
  proof (cases "truthy (c_name r)")
    case False
    then show ?thesis using Obj by simp
  next
    case True
    show ?thesis
    proof (cases "find (\<lambda>c. cat_name c = c_name r) (categories (work (before_query (db st))))")
      case None
      then have "c_name r \<notin> cat_name ` set (categories (work (before_query (db st))))"
        by (force simp: find_None_iff)
      then show ?thesis
        using Obj True new_category_step [of r st v] by (simp add: db_flush_stored)
    next
      case (Some c)
      then show ?thesis
        using Obj True existing_category_step [of r st c v] by (simp add: before_query_stored)
    qed
  qed
qed

lemma categories_loop_stored: "stored (db (snd (categories_loop xs v st))) = stored (db st)"
proof (induction xs arbitrary: v st)
  case Nil
  then show ?case by simp
next
  case (Cons x xs)
  obtain r st1 where step: "category_step x v st = (r, st1)" by (cases "category_step x v st")
  have s1: "stored (db st1) = stored (db st)"
    using category_step_stored [of x v st] step by simp
  show ?case
  proof (cases r)
    case (Return v1)
    then show ?thesis using step s1 Cons.IH [of v1 st1] by simp
  next
    case (Raise e)
    then show ?thesis using step s1 by simp
  qed
qed

lemma load_categories_raise_stored:
  assumes "load_categories cf st = (Raise e, st')"
  shows "stored (db st') = stored (db st)"
proof (cases cf)
  case Absent
  with assms show ?thesis by simp
next
  case Invalid
  with assms show ?thesis by simp
next
  case (Json xs)
  obtain r st1 where loop: "categories_loop xs \<lparr>category_map = [], new_count = 0, existing_count = 0\<rparr>
      (logger_info (ProcessingCategories (length xs)) st) = (r, st1)"
    by (cases "categories_loop xs \<lparr>category_map = [], new_count = 0, existing_count = 0\<rparr>
      (logger_info (ProcessingCategories (length xs)) st)")
  have "stored (db st1) = stored (db (logger_info (ProcessingCategories (length xs)) st))"
    using categories_loop_stored [of xs "\<lparr>category_map = [], new_count = 0, existing_count = 0\<rparr>"
        "logger_info (ProcessingCategories (length xs)) st"] loop by simp
  then have s1: "stored (db st1) = stored (db st)" by (simp add: logger_info_def)
  show ?thesis
  proof (cases r)
    case (Return v)
    with assms Json loop show ?thesis by simp
  next
    case (Raise e')
    with assms Json loop s1 show ?thesis by simp
  qed
qed

lemma product_step_stored: "stored (db (snd (product_step cmap x v st))) = stored (db st)"
proof (cases x)
  case NonObj
  then show ?thesis by simp
next
  case (Obj r)
  then show ?thesis
    by (simp add: Let_def query_product_def logger_warning_def db_add_def before_query_stored
        split: option.splits)
qed

lemma products_loop_stored: "stored (db (snd (products_loop cmap xs v st))) = stored (db st)"
proof (induction xs arbitrary: v st)
  case Nil
  then show ?case by simp
next
  case (Cons x xs)
  obtain r st1 where step: "product_step cmap x v st = (r, st1)" by (cases "product_step cmap x v st")
  have s1: "stored (db st1) = stored (db st)"
    using product_step_stored [of cmap x v st] step by simp
  show ?case
  proof (cases r)
    case (Return v1)
    then show ?thesis using step s1 Cons.IH [of v1 st1] by simp
  next
    case (Raise e)
    then show ?thesis using step s1 by simp
  qed
qed

lemma load_products_raise_stored:
  assumes "load_products pf cmap st = (Raise e, st')"
  shows "stored (db st') = stored (db st)"
proof (cases pf)
  case Absent
  with assms show ?thesis by simp
next
  case Invalid
  with assms show ?thesis by simp
next
  case (Json xs)
  obtain r st1 where loop: "products_loop cmap xs \<lparr>p_new_count = 0, skipped_count = 0\<rparr>
      (logger_info (ProcessingProducts (length xs)) st) = (r, st1)"
    by (cases "products_loop cmap xs \<lparr>p_new_count = 0, skipped_count = 0\<rparr>
      (logger_info (ProcessingProducts (length xs)) st)")
  have "stored (db st1) = stored (db (logger_info (ProcessingProducts (length xs)) st))"
    using products_loop_stored [of cmap xs "\<lparr>p_new_count = 0, skipped_count = 0\<rparr>"
        "logger_info (ProcessingProducts (length xs)) st"] loop by simp
  then have s1: "stored (db st1) = stored (db st)" by (simp add: logger_info_def)
  show ?thesis
  proof (cases r)
    case (Return v)
    with assms Json loop show ?thesis by simp
  next
    case (Raise e')
    with assms Json loop s1 show ?thesis by simp
  qed
qed

subsection \<open>The orchestrator\<close>

text \<open>
  C7. With the categories file absent, \<open>load_categories\<close> logs one error and returns the
  empty map without raising, and \<open>main\<close> then logs that no categories were loaded and
  ends: its result is the same for every products file, holds no entry of
  \<open>load_products\<close> in its log, and leaves the database \<open>d\<close> as it was. With the products
  file absent, \<open>load_products\<close> logs one error and returns without raising; the session
  is the one it was given.
\<close>

theorem missing_files:
  "load_categories Absent st =
     (Return [], st\<lparr>logger := logger st @ [(ERROR, CategoriesFileNotFound)]\<rparr>)
 \<and> main True af Absent pf d =
     \<lparr>exit_code = 0,
      session = Some \<lparr>stored = d, work = d, pending = [], autoflush = af, closed = True\<rparr>,
      run_log = [(INFO, Starting), (ERROR, CategoriesFileNotFound),
                 (WARNING, NoCategoriesLoaded), (INFO, Completed)]\<rparr>
 \<and> load_products Absent cmap st' =
     (Return (), st'\<lparr>logger := logger st' @ [(ERROR, ProductsFileNotFound)]\<rparr>)"
  by (simp add: main_def try_block_def logger_ops SessionLocal_def db_close_def)

text \<open>
  C9. The exit code of \<open>main\<close> is 1 exactly when the connectivity check fails, and 0 in
  every other run, whatever the files hold (records skipped, an exception caught). When
  the check fails, \<open>main\<close> logs the failure and opens no session.
\<close>

theorem exit_code_of_main:
  "exit_code (main check_connection af cf pf d) = (if check_connection then 0 else 1)
 \<and> (exit_code (main check_connection af cf pf d) = 1) = (\<not> check_connection)
 \<and> main False af cf pf d =
     \<lparr>exit_code = 1, session = None,
      run_log = [(INFO, Starting), (ERROR, CouldNotConnect)]\<rparr>"
  by (simp add: main_def Let_def)

lemma handler_result:
  "handler e st = \<lparr>db = db_rollback (db st), logger = logger st @ [(ERROR, ErrorOccurred e)]\<rparr>"
  by (simp add: handler_def logger_error_def Let_def)

lemma main_connected:
  "main True af cf pf d =
     \<lparr>exit_code = 0,
      session = Some (db_close (db (try_block cf pf \<lparr>db = SessionLocal af d, logger = [(INFO, Starting)]\<rparr>))),
      run_log = logger (try_block cf pf \<lparr>db = SessionLocal af d, logger = [(INFO, Starting)]\<rparr>) @ [(INFO, Completed)]\<rparr>"
  by (simp add: main_def Let_def)

subsection \<open>Referential integrity is an invariant of a run\<close>

lemma insert_row_integrity:
  assumes "referential_integrity d" "resolves d m"
  shows "referential_integrity (snd (insert_row m d)) \<and> cat_ids d \<subseteq> cat_ids (snd (insert_row m d))"
  using assms by (cases m) (auto simp: referential_integrity_def cat_ids_def Let_def)

lemma resolves_mono: "resolves d m \<Longrightarrow> cat_ids d \<subseteq> cat_ids d' \<Longrightarrow> resolves d' m"
  by (cases m) auto

lemma insert_all_integrity:
  assumes "referential_integrity d" "\<forall>m \<in> set ms. resolves d m"
  shows "referential_integrity (snd (insert_all ms d)) \<and> cat_ids d \<subseteq> cat_ids (snd (insert_all ms d))"
  using assms
proof (induction ms arbitrary: d)
  case Nil
  then show ?case by simp
next
  case (Cons m ms)
  let ?d1 = "snd (insert_row m d)"
  have r1: "referential_integrity ?d1" and sub1: "cat_ids d \<subseteq> cat_ids ?d1"
    using insert_row_integrity [of d m] Cons.prems by simp_all
  have "\<forall>m' \<in> set ms. resolves ?d1 m'"
    using Cons.prems(2) sub1 resolves_mono by fastforce
  then have "referential_integrity (snd (insert_all ms ?d1)) \<and> cat_ids ?d1 \<subseteq> cat_ids (snd (insert_all ms ?d1))"
    using Cons.IH r1 by blast
  then show ?case using sub1 by (auto split: prod.splits)
qed

lemma db_flush_integrity:
  assumes "session_integrity s"
  shows "session_integrity (snd (db_flush s)) \<and> cat_ids (work s) \<subseteq> cat_ids (work (snd (db_flush s)))"
  using insert_all_integrity [of "work s" "pending s"] assms
  by (auto simp: session_integrity_def db_flush_def split: prod.splits)

lemma before_query_integrity:
  assumes "session_integrity s"
  shows "session_integrity (before_query s) \<and> cat_ids (work s) \<subseteq> cat_ids (work (before_query s))"
  using db_flush_integrity [OF assms] assms by (simp add: before_query_def)

lemma db_add_integrity:
  assumes "session_integrity s" "resolves (work s) m"
  shows "session_integrity (db_add m s)"
  using assms by (auto simp: session_integrity_def db_add_def)

lemma db_commit_integrity:
  assumes "session_integrity s"
  shows "session_integrity (db_commit s) \<and> cat_ids (work s) \<subseteq> cat_ids (work (db_commit s))"
  using db_flush_integrity [OF assms]
  by (auto simp: db_commit_def Let_def session_integrity_def)

lemma map_resolves_mono:
  "map_resolves cmap s \<Longrightarrow> cat_ids (work s) \<subseteq> cat_ids (work s') \<Longrightarrow> map_resolves cmap s'"
  unfolding map_resolves_def by blast

lemma map_resolves_update:
  "map_resolves cmap s \<Longrightarrow> i \<in> cat_ids (work s) \<Longrightarrow> map_resolves (AList.update k i cmap) s"
  unfolding map_resolves_def by (simp add: update_conv')

lemma add_category_row_integrity:
  assumes "session_integrity s" "pending s = []"
  shows "session_integrity (s\<lparr>work := (work s)\<lparr>categories := categories (work s) @ [c]\<rparr>\<rparr>)
       \<and> cat_ids (work s) \<subseteq> cat_ids (work (s\<lparr>work := (work s)\<lparr>categories := categories (work s) @ [c]\<rparr>\<rparr>))
       \<and> cat_id c \<in> cat_ids (work (s\<lparr>work := (work s)\<lparr>categories := categories (work s) @ [c]\<rparr>\<rparr>))"
  using assms by (auto simp: session_integrity_def referential_integrity_def cat_ids_def)

lemma category_step_integrity:
  assumes "session_integrity (db st)" "map_resolves (category_map v) (db st)"
      and "category_step x v st = (Return v', st')"
  shows "session_integrity (db st') \<and> map_resolves (category_map v') (db st')"
proof (cases x)
  case NonObj
  with assms(3) show ?thesis by simp
next
  case (Obj r)
  show ?thesis
  proof (cases "truthy (c_name r)")
    case False
    with assms Obj show ?thesis by simp
  next
    case True
    let ?s1 = "before_query (db st)"
    let ?s2 = "snd (db_flush (db st))"
    show ?thesis
    proof (cases "find (\<lambda>c. cat_name c = c_name r) (categories (work ?s1))")
      case None
      then have "c_name r \<notin> cat_name ` set (categories (work ?s1))"
        by (force simp: find_None_iff)
      note step = new_category_step [OF True this, of v]
      let ?cid = "next_id (map cat_id (categories (work ?s2)))"
      let ?s3 = "?s2\<lparr>work := (work ?s2)\<lparr>categories := categories (work ?s2) @
                     [\<lparr>cat_id = ?cid, cat_name = c_name r\<rparr>]\<rparr>\<rparr>"
      have v': "category_map v' = AList.update (c_name r) ?cid (category_map v)" and st': "db st' = ?s3"
        using step assms(3) Obj by auto
      have i2: "session_integrity ?s2" and sub2: "cat_ids (work (db st)) \<subseteq> cat_ids (work ?s2)"
        using db_flush_integrity [OF assms(1)] by simp_all
      have p2: "pending ?s2 = []" by (simp add: db_flush_def split: prod.splits)
      have i3: "session_integrity ?s3" and sub3: "cat_ids (work ?s2) \<subseteq> cat_ids (work ?s3)"
        and mem: "?cid \<in> cat_ids (work ?s3)"
        using add_category_row_integrity [OF i2 p2, of "\<lparr>cat_id = ?cid, cat_name = c_name r\<rparr>"]
        by simp_all
      have "map_resolves (category_map v) ?s3"
        using map_resolves_mono [OF assms(2)] sub2 sub3 by blast
      then have "map_resolves (category_map v') ?s3"
        using map_resolves_update mem v' by metis
      then show ?thesis using i3 st' by simp
    next
      case (Some c)
      note step = existing_category_step [OF True Some, of v]
      have v': "category_map v' = AList.update (c_name r) (cat_id c) (category_map v)" and st': "db st' = ?s1"
        using step assms(3) Obj by auto
      have i1: "session_integrity ?s1" and sub1: "cat_ids (work (db st)) \<subseteq> cat_ids (work ?s1)"
        using before_query_integrity [OF assms(1)] by simp_all
      have "c \<in> set (categories (work ?s1))"
        using Some by (auto simp: find_Some_iff)
      then have mem: "cat_id c \<in> cat_ids (work ?s1)" by (simp add: cat_ids_def)
      have "map_resolves (category_map v) ?s1"
        using map_resolves_mono [OF assms(2) sub1] .
      then have "map_resolves (category_map v') ?s1"
        using map_resolves_update mem v' by metis
      then show ?thesis using i1 st' by simp
    qed
  qed
qed

lemma categories_loop_integrity:
  assumes "session_integrity (db st)" "map_resolves (category_map v) (db st)"
      and "categories_loop xs v st = (Return v', st')"
  shows "session_integrity (db st') \<and> map_resolves (category_map v') (db st')"
  using assms
proof (induction xs arbitrary: v st)
  case Nil
  then show ?case by simp
next
  case (Cons x xs)
  obtain r st1 where step: "category_step x v st = (r, st1)" by (cases "category_step x v st")
  show ?case
  proof (cases r)
    case (Return v1)
    have "session_integrity (db st1) \<and> map_resolves (category_map v1) (db st1)"
      using category_step_integrity [OF Cons.prems(1,2)] step Return by simp
    moreover have "categories_loop xs v1 st1 = (Return v', st')"
      using Cons.prems(3) step Return by simp
    ultimately show ?thesis using Cons.IH by blast
  next
    case (Raise e)
    with Cons.prems(3) step show ?thesis by simp
  qed
qed

lemma load_categories_integrity:
  assumes "session_integrity (db st)" "load_categories cf st = (Return cmap, st')"
  shows "session_integrity (db st') \<and> map_resolves cmap (db st')"
proof (cases cf)
  case Absent
  with assms show ?thesis by (auto simp: logger_error_def map_resolves_def)
next
  case Invalid
  with assms show ?thesis by simp
next
  case (Json xs)
  let ?st0 = "logger_info (ProcessingCategories (length xs)) st"
  obtain r st1 where loop: "categories_loop xs \<lparr>category_map = [], new_count = 0, existing_count = 0\<rparr> ?st0 = (r, st1)"
    by (cases "categories_loop xs \<lparr>category_map = [], new_count = 0, existing_count = 0\<rparr> ?st0")
  show ?thesis
  proof (cases r)
    case (Return v)
    have i0: "session_integrity (db ?st0)" using assms(1) by (simp add: logger_info_def)
    have m0: "map_resolves (category_map \<lparr>category_map = [], new_count = 0, existing_count = 0\<rparr>) (db ?st0)"
      by (simp add: map_resolves_def)
    have i1: "session_integrity (db st1)" and m1: "map_resolves (category_map v) (db st1)"
      using categories_loop_integrity [OF i0 m0] loop Return by simp_all
    have eq: "cmap = category_map v" "db st' = db_commit (db st1)"
      using assms(2) Json loop Return by (auto simp: logger_info_def)
    have "session_integrity (db_commit (db st1))" and "cat_ids (work (db st1)) \<subseteq> cat_ids (work (db_commit (db st1)))"
      using db_commit_integrity [OF i1] by simp_all
    then show ?thesis using eq m1 map_resolves_mono by metis
  next
    case (Raise e)
    with assms(2) Json loop show ?thesis by simp
  qed
qed

lemma product_step_integrity:
  assumes "session_integrity (db st)" "map_resolves cmap (db st)"
      and "product_step cmap x v st = (Return v', st')"
  shows "session_integrity (db st') \<and> map_resolves cmap (db st')"
proof (cases x)
  case NonObj
  with assms(3) show ?thesis by simp
next
  case (Obj r)
  show ?thesis
  proof (cases "map_of cmap (category r)")
    case None
    with assms Obj show ?thesis by (auto simp: logger_warning_def)
  next
    case (Some cid)
    let ?s1 = "before_query (db st)"
    have i1: "session_integrity ?s1" and sub1: "cat_ids (work (db st)) \<subseteq> cat_ids (work ?s1)"
      using before_query_integrity [OF assms(1)] by simp_all
    have m1: "map_resolves cmap ?s1" using map_resolves_mono [OF assms(2) sub1] .
    show ?thesis
    proof (cases "find (\<lambda>p. prod_name p = name r) (products (work ?s1))")
      case found: (Some q)
      then have "db st' = ?s1"
        using assms(3) Obj Some by (auto simp: query_product_def Let_def)
      then show ?thesis using i1 m1 by simp
    next
      case None
      then have st': "db st' = db_add (ProductModel (name r) (price r) (stock r) cid) ?s1"
        using assms(3) Obj Some by (auto simp: query_product_def Let_def)
      have "cid \<in> cat_ids (work ?s1)" using m1 Some by (auto simp: map_resolves_def)
      then have "session_integrity (db_add (ProductModel (name r) (price r) (stock r) cid) ?s1)"
        using db_add_integrity [OF i1] by simp
      moreover have "map_resolves cmap (db_add (ProductModel (name r) (price r) (stock r) cid) ?s1)"
        using m1 by (simp add: map_resolves_def db_add_def)
      ultimately show ?thesis using st' by simp
    qed
  qed
qed

lemma products_loop_integrity:
  assumes "session_integrity (db st)" "map_resolves cmap (db st)"
      and "products_loop cmap xs v st = (Return v', st')"
  shows "session_integrity (db st')"
  using assms
proof (induction xs arbitrary: v st)
  case Nil
  then show ?case by simp
next
  case (Cons x xs)
  obtain r st1 where step: "product_step cmap x v st = (r, st1)" by (cases "product_step cmap x v st")
  show ?case
  proof (cases r)
    case (Return v1)
    have "session_integrity (db st1) \<and> map_resolves cmap (db st1)"
      using product_step_integrity [OF Cons.prems(1,2)] step Return by simp
    moreover have "products_loop cmap xs v1 st1 = (Return v', st')"
      using Cons.prems(3) step Return by simp
    ultimately show ?thesis using Cons.IH by blast
  next
    case (Raise e)
    with Cons.prems(3) step show ?thesis by simp
  qed
qed

lemma load_products_integrity:
  assumes "session_integrity (db st)" "map_resolves cmap (db st)"
      and "load_products pf cmap st = (Return u, st')"
  shows "session_integrity (db st')"
proof (cases pf)
  case Absent
  with assms show ?thesis by (auto simp: logger_error_def)
next
  case Invalid
  with assms show ?thesis by simp
next
  case (Json xs)
  let ?st0 = "logger_info (ProcessingProducts (length xs)) st"
  obtain r st1 where loop: "products_loop cmap xs \<lparr>p_new_count = 0, skipped_count = 0\<rparr> ?st0 = (r, st1)"
    by (cases "products_loop cmap xs \<lparr>p_new_count = 0, skipped_count = 0\<rparr> ?st0")
  show ?thesis
  proof (cases r)
    case (Return v)
    have i0: "session_integrity (db ?st0)" and m0: "map_resolves cmap (db ?st0)"
      using assms(1,2) by (simp_all add: logger_info_def)
    have i1: "session_integrity (db st1)"
      using products_loop_integrity [OF i0 m0] loop Return by simp
    have "db st' = db_commit (db st1)"
      using assms(3) Json loop Return by (auto simp: logger_info_def)
    then show ?thesis using db_commit_integrity [OF i1] by simp
  next
    case (Raise e)
    with assms(3) Json loop show ?thesis by simp
  qed
qed

lemma try_block_integrity:
  assumes "referential_integrity d"
  shows "referential_integrity (stored (db (try_block cf pf \<lparr>db = SessionLocal af d, logger = lg\<rparr>)))"
proof -
  let ?st0 = "\<lparr>db = SessionLocal af d, logger = lg\<rparr>"
  have i0: "session_integrity (db ?st0)"
    using assms by (simp add: session_integrity_def SessionLocal_def)
  have s0: "stored (db ?st0) = d" by (simp add: SessionLocal_def)
  obtain r1 st1 where lc: "load_categories cf ?st0 = (r1, st1)" by (cases "load_categories cf ?st0")
  show ?thesis
  proof (cases r1)
    case (Raise e)
    have "stored (db st1) = d"
      using load_categories_raise_stored [of cf ?st0 e st1] lc Raise s0 by simp
    then show ?thesis using lc Raise assms
      by (simp add: try_block_def handler_result db_rollback_def)
  next
    case (Return cmap)
    have i1: "session_integrity (db st1)" and m1: "map_resolves cmap (db st1)"
      using load_categories_integrity [OF i0] lc Return by simp_all
    have r1: "referential_integrity (stored (db st1))"
      using i1 by (simp add: session_integrity_def)
    show ?thesis
    proof (cases "cmap = []")
      case True
      then show ?thesis using lc Return r1 by (simp add: try_block_def logger_warning_def)
    next
      case False
      obtain r2 st2 where lp: "load_products pf cmap st1 = (r2, st2)" by (cases "load_products pf cmap st1")
      show ?thesis
      proof (cases r2)
        case ret: (Return u)
        have "session_integrity (db st2)"
          using load_products_integrity [OF i1 m1] lp ret by simp
        then show ?thesis using lc Return False lp ret
          by (simp add: try_block_def session_integrity_def)
      next
        case rai: (Raise e)
        have "stored (db st2) = stored (db st1)"
          using load_products_raise_stored lp rai by blast
        then show ?thesis using lc Return False lp rai r1
          by (simp add: try_block_def handler_result db_rollback_def)
      qed
    qed
  qed
qed

text \<open>
  C3. Every product row of the database after a run of \<open>main\<close> names a category row of
  that database, given that this held of the database before the run (as it does of an
  empty one, and of any database on which the foreign key is enforced): the products the
  run adds take their \<open>category_id\<close> from the map of \<open>load_categories\<close>, whose identifiers
  are those of rows found or flushed, and no run removes a category. It holds on every
  path of \<open>main\<close>: no connection, an exception in either loader, or a normal end.
\<close>

theorem referential_integrity_kept:
  assumes "referential_integrity d"
  shows "referential_integrity (database_after d (main check_connection af cf pf d))"
proof (cases check_connection)
  case False
  then show ?thesis using assms by (simp add: main_def database_after_def)
next
  case True
  then show ?thesis using try_block_integrity [OF assms, of cf pf af "[(INFO, Starting)]"]
    by (simp add: main_connected database_after_def db_close_def)
qed

text \<open>The first example of the specification: one category Books, one product Dune.\<close>

theorem referential_integrity_kept_witness:
  "referential_integrity (\<lparr>categories = [], products = []\<rparr> :: string database)
 \<and> database_after \<lparr>categories = [], products = []\<rparr>
      (main True True (Json [Obj \<lparr>c_name = Some ''Books''\<rparr>])
         (Json [Obj \<lparr>name = Some ''Dune'', price = Some ''15.5'', stock = Some 10, category = Some ''Books''\<rparr>])
         \<lparr>categories = [], products = []\<rparr>) =
    \<lparr>categories = [\<lparr>cat_id = 1, cat_name = Some ''Books''\<rparr>],
     products = [\<lparr>prod_id = 1, prod_name = Some ''Dune'', prod_price = Some ''15.5'',
                  prod_stock = Some 10, category_id = 1\<rparr>]\<rparr>
 \<and> referential_integrity (database_after \<lparr>categories = [], products = []\<rparr>
      (main True True (Json [Obj \<lparr>c_name = Some ''Books''\<rparr>])
         (Json [Obj \<lparr>name = Some ''Dune'', price = Some ''15.5'', stock = Some 10, category = Some ''Books''\<rparr>])
         \<lparr>categories = [], products = []\<rparr>))"
proof -
  have h: "referential_integrity (\<lparr>categories = [], products = []\<rparr> :: string database)"
    by (simp add: referential_integrity_def)
  have e: "database_after \<lparr>categories = [], products = []\<rparr>
      (main True True (Json [Obj \<lparr>c_name = Some ''Books''\<rparr>])
         (Json [Obj \<lparr>name = Some ''Dune'', price = Some ''15.5'', stock = Some 10, category = Some ''Books''\<rparr>])
         \<lparr>categories = [], products = []\<rparr>) =
    \<lparr>categories = [\<lparr>cat_id = 1, cat_name = Some ''Books''\<rparr>],
     products = [\<lparr>prod_id = 1, prod_name = Some ''Dune'', prod_price = Some ''15.5'',
                  prod_stock = Some 10, category_id = 1\<rparr>]\<rparr>"
    by (simp add: database_after_def main_def try_block_def session_ops logger_ops Let_def)
  have c: "referential_integrity (database_after \<lparr>categories = [], products = []\<rparr>
      (main True True (Json [Obj \<lparr>c_name = Some ''Books''\<rparr>])
         (Json [Obj \<lparr>name = Some ''Dune'', price = Some ''15.5'', stock = Some 10, category = Some ''Books''\<rparr>])
         \<lparr>categories = [], products = []\<rparr>))"
    using h by (rule referential_integrity_kept)
  from h e c show ?thesis by (intro conjI)
qed

subsection \<open>Running the loaders twice\<close>









lemma db_commit_clean:
  "work (db_commit s) = stored (db_commit s) \<and> pending (db_commit s) = []
   \<and> stored (db_commit s) = work (snd (db_flush s))"
  by (simp add: db_commit_def db_flush_def Let_def split: prod.splits)





lemma db_flush_work: "work (snd (db_flush s)) = snd (insert_all (pending s) (work s))"
  by (simp add: db_flush_def case_prod_unfold)



lemma db_flush_pending: "pending (snd (db_flush s)) = []"
  by (simp add: db_flush_def case_prod_unfold)








lemma db_flush_nothing: "pending s = [] \<Longrightarrow> db_flush s = ([], s)"
  by (simp add: db_flush_def)

lemma before_query_nothing: "pending s = [] \<Longrightarrow> before_query s = s"
  by (simp add: before_query_def db_flush_nothing)








subsection \<open>A record in its file\<close>

text \<open>
  What a loader does with one record is read off two runs: one on a file and one on the
  same file with the record put in. A loop over a list of two parts is the loop over the
  second part, started where the loop over the first part ended; and what the products
  loop adds to the counters and to the log is a function of the session and the records
  alone.
\<close>

lemma products_loop_append:
  "products_loop cmap (xs @ ys) v st =
     (case products_loop cmap xs v st of
        (Return v1, st1) \<Rightarrow> products_loop cmap ys v1 st1
      | (Raise e, st1) \<Rightarrow> (Raise e, st1))"
proof (induction xs arbitrary: v st)
  case Nil
  then show ?case by simp
next
  case (Cons x xs)
  obtain r st1 where step: "product_step cmap x v st = (r, st1)" by (cases "product_step cmap x v st")
  show ?case
  proof (cases r)
    case (Return v1)
    then show ?thesis using step Cons.IH [of v1 st1] by simp
  next
    case (Raise e)
    then show ?thesis using step by simp
  qed
qed

lemma product_step_uniform:
  "\<exists>a b s'. a + b = 1 \<and>
     (\<forall>v l. product_step cmap (Obj r) v \<lparr>db = s, logger = l\<rparr> =
        (Return (v\<lparr>p_new_count := p_new_count v + a, skipped_count := skipped_count v + b\<rparr>),
         \<lparr>db = s', logger = l @ missing_category_warnings cmap [Obj r]\<rparr>))"
proof (cases "map_of cmap (category r)")
  case None
  then have nk: "category r \<notin> fst ` set cmap" by (simp add: map_of_eq_None_iff)
  have "\<forall>v l. product_step cmap (Obj r) v \<lparr>db = s, logger = l\<rparr> =
        (Return (v\<lparr>p_new_count := p_new_count v + 0, skipped_count := skipped_count v + 1\<rparr>),
         \<lparr>db = s, logger = l @ missing_category_warnings cmap [Obj r]\<rparr>)"
    using None nk by (simp add: logger_warning_def)
  then show ?thesis by (intro exI [of _ 0] exI [of _ 1] exI [of _ s]) simp
next
  case (Some cid)
  then have k: "category r \<in> fst ` set cmap" by (metis map_of_eq_None_iff option.distinct(1))
  show ?thesis
  proof (cases "find (\<lambda>p. prod_name p = name r) (products (work (before_query s)))")
    case None
    have "\<forall>v l. product_step cmap (Obj r) v \<lparr>db = s, logger = l\<rparr> =
        (Return (v\<lparr>p_new_count := p_new_count v + 1, skipped_count := skipped_count v + 0\<rparr>),
         \<lparr>db = db_add (ProductModel (name r) (price r) (stock r) cid) (before_query s),
          logger = l @ missing_category_warnings cmap [Obj r]\<rparr>)"
      using Some None k by (simp add: query_product_def Let_def)
    then show ?thesis
      by (intro exI [of _ 1] exI [of _ 0]
          exI [of _ "db_add (ProductModel (name r) (price r) (stock r) cid) (before_query s)"]) simp
  next
    case found: (Some q)
    have "\<forall>v l. product_step cmap (Obj r) v \<lparr>db = s, logger = l\<rparr> =
        (Return (v\<lparr>p_new_count := p_new_count v + 0, skipped_count := skipped_count v + 1\<rparr>),
         \<lparr>db = before_query s, logger = l @ missing_category_warnings cmap [Obj r]\<rparr>)"
      using Some found k by (simp add: query_product_def Let_def)
    then show ?thesis by (intro exI [of _ 0] exI [of _ 1] exI [of _ "before_query s"]) simp
  qed
qed

lemma products_loop_uniform:
  "NonObj \<notin> set xs \<Longrightarrow>
   \<exists>a b s'. a + b = length xs \<and>
     (\<forall>v l. products_loop cmap xs v \<lparr>db = s, logger = l\<rparr> =
        (Return (v\<lparr>p_new_count := p_new_count v + a, skipped_count := skipped_count v + b\<rparr>),
         \<lparr>db = s', logger = l @ missing_category_warnings cmap xs\<rparr>))"
proof (induction xs arbitrary: s)
  case Nil
  have "\<forall>v l. products_loop cmap [] v \<lparr>db = s, logger = l\<rparr> =
        (Return (v\<lparr>p_new_count := p_new_count v + 0, skipped_count := skipped_count v + 0\<rparr>),
         \<lparr>db = s, logger = l @ missing_category_warnings cmap []\<rparr>)"
    by simp
  then show ?case by (intro exI [of _ 0] exI [of _ s]) simp
next
  case (Cons x xs)
  from Cons.prems obtain r where x: "x = Obj r" by (cases x) auto
  obtain a1 b1 s1 where ab1: "a1 + b1 = 1"
    and step: "\<And>v l. product_step cmap (Obj r) v \<lparr>db = s, logger = l\<rparr> =
        (Return (v\<lparr>p_new_count := p_new_count v + a1, skipped_count := skipped_count v + b1\<rparr>),
         \<lparr>db = s1, logger = l @ missing_category_warnings cmap [Obj r]\<rparr>)"
    using product_step_uniform [of cmap r s] by blast
  have "NonObj \<notin> set xs" using Cons.prems by simp
  then obtain a2 b2 s2 where ab2: "a2 + b2 = length xs"
    and rest: "\<And>v l. products_loop cmap xs v \<lparr>db = s1, logger = l\<rparr> =
        (Return (v\<lparr>p_new_count := p_new_count v + a2, skipped_count := skipped_count v + b2\<rparr>),
         \<lparr>db = s2, logger = l @ missing_category_warnings cmap xs\<rparr>)"
    using Cons.IH [of s1] by blast
  have w: "missing_category_warnings cmap (Obj r # xs) =
           missing_category_warnings cmap [Obj r] @ missing_category_warnings cmap xs"
    by simp
  have "\<forall>v l. products_loop cmap (x # xs) v \<lparr>db = s, logger = l\<rparr> =
        (Return (v\<lparr>p_new_count := p_new_count v + (a1 + a2), skipped_count := skipped_count v + (b1 + b2)\<rparr>),
         \<lparr>db = s2, logger = l @ missing_category_warnings cmap (x # xs)\<rparr>)"
    unfolding x w by (simp add: step rest del: missing_category_warnings.simps product_step.simps)
  moreover have "(a1 + a2) + (b1 + b2) = length (x # xs)" using ab1 ab2 by simp
  ultimately show ?case by blast
qed

lemma missing_category_warnings_append:
  "missing_category_warnings cmap (xs @ ys) =
   missing_category_warnings cmap xs @ missing_category_warnings cmap ys"
  by (induction xs rule: missing_category_warnings.induct) simp_all

lemma load_products_json_eq:
  assumes "\<And>v. products_loop cmap ps v \<lparr>db = s, logger = l @ [(INFO, ProcessingProducts (length ps))]\<rparr> =
        (Return (v\<lparr>p_new_count := p_new_count v + a, skipped_count := skipped_count v + b\<rparr>),
         \<lparr>db = s', logger = l @ [(INFO, ProcessingProducts (length ps))] @ w\<rparr>)"
  shows "load_products (Json ps) cmap \<lparr>db = s, logger = l\<rparr> =
        (Return (), \<lparr>db = db_commit s',
                    logger = l @ [(INFO, ProcessingProducts (length ps))] @ w @ [(INFO, ProductsLoaded a b)]\<rparr>)"
  using assms [of "\<lparr>p_new_count = 0, skipped_count = 0\<rparr>"]
  by (simp add: logger_info_def)

lemma missing_category_in_file:
  assumes "category r \<notin> fst ` set cmap" and "NonObj \<notin> set (xs @ ys)"
  shows "\<exists>n k s'. n + k = length (xs @ ys) \<and>
     (\<forall>l. load_products (Json (xs @ ys)) cmap \<lparr>db = s, logger = l\<rparr> =
          (Return (), \<lparr>db = s',
             logger = l @ [(INFO, ProcessingProducts (length (xs @ ys)))] @
               missing_category_warnings cmap (xs @ ys) @ [(INFO, ProductsLoaded n k)]\<rparr>)
        \<and> load_products (Json (xs @ Obj r # ys)) cmap \<lparr>db = s, logger = l\<rparr> =
          (Return (), \<lparr>db = s',
             logger = l @ [(INFO, ProcessingProducts (Suc (length (xs @ ys))))] @
               missing_category_warnings cmap xs @
               [(WARNING, CategoryNotFound (category r) (name r))] @
               missing_category_warnings cmap ys @ [(INFO, ProductsLoaded n (Suc k))]\<rparr>))"
proof -
  have nx: "NonObj \<notin> set xs" and ny: "NonObj \<notin> set ys" using assms(2) by auto
  obtain a1 b1 s1 where ab1: "a1 + b1 = length xs"
    and lx: "\<And>v l. products_loop cmap xs v \<lparr>db = s, logger = l\<rparr> =
        (Return (v\<lparr>p_new_count := p_new_count v + a1, skipped_count := skipped_count v + b1\<rparr>),
         \<lparr>db = s1, logger = l @ missing_category_warnings cmap xs\<rparr>)"
    using products_loop_uniform [OF nx, of cmap s] by blast
  obtain a2 b2 s2 where ab2: "a2 + b2 = length ys"
    and ly: "\<And>v l. products_loop cmap ys v \<lparr>db = s1, logger = l\<rparr> =
        (Return (v\<lparr>p_new_count := p_new_count v + a2, skipped_count := skipped_count v + b2\<rparr>),
         \<lparr>db = s2, logger = l @ missing_category_warnings cmap ys\<rparr>)"
    using products_loop_uniform [OF ny, of cmap s1] by blast
  have none: "map_of cmap (category r) = None"
    using assms(1) by (simp add: map_of_eq_None_iff)
  have lr: "\<And>v l. product_step cmap (Obj r) v \<lparr>db = s1, logger = l\<rparr> =
        (Return (v\<lparr>skipped_count := skipped_count v + 1\<rparr>),
         \<lparr>db = s1, logger = l @ [(WARNING, CategoryNotFound (category r) (name r))]\<rparr>)"
    using none by (simp add: logger_warning_def)
  have without: "\<And>v l. products_loop cmap (xs @ ys) v \<lparr>db = s, logger = l\<rparr> =
        (Return (v\<lparr>p_new_count := p_new_count v + (a1 + a2), skipped_count := skipped_count v + (b1 + b2)\<rparr>),
         \<lparr>db = s2, logger = l @ missing_category_warnings cmap (xs @ ys)\<rparr>)"
    by (simp add: products_loop_append lx ly missing_category_warnings_append)
  have with_r: "\<And>v l. products_loop cmap (xs @ Obj r # ys) v \<lparr>db = s, logger = l\<rparr> =
        (Return (v\<lparr>p_new_count := p_new_count v + (a1 + a2), skipped_count := skipped_count v + Suc (b1 + b2)\<rparr>),
         \<lparr>db = s2, logger = l @ missing_category_warnings cmap xs @
               [(WARNING, CategoryNotFound (category r) (name r))] @
               missing_category_warnings cmap ys\<rparr>)"
    by (simp add: products_loop_append lx ly lr del: product_step.simps)
  have l1: "\<And>l. load_products (Json (xs @ ys)) cmap \<lparr>db = s, logger = l\<rparr> =
          (Return (), \<lparr>db = db_commit s2,
             logger = l @ [(INFO, ProcessingProducts (length (xs @ ys)))] @
               missing_category_warnings cmap (xs @ ys) @ [(INFO, ProductsLoaded (a1 + a2) (b1 + b2))]\<rparr>)"
    by (rule load_products_json_eq) (simp add: without)
  have l2: "\<And>l. load_products (Json (xs @ Obj r # ys)) cmap \<lparr>db = s, logger = l\<rparr> =
          (Return (), \<lparr>db = db_commit s2,
             logger = l @ [(INFO, ProcessingProducts (length (xs @ Obj r # ys)))] @
               (missing_category_warnings cmap xs @
               [(WARNING, CategoryNotFound (category r) (name r))] @
               missing_category_warnings cmap ys) @ [(INFO, ProductsLoaded (a1 + a2) (Suc (b1 + b2)))]\<rparr>)"
    by (rule load_products_json_eq) (simp add: with_r)
  have "(a1 + a2) + (b1 + b2) = length (xs @ ys)" using ab1 ab2 by simp
  then show ?thesis using l1 l2 by (intro exI [of _ "a1 + a2"] exI [of _ "b1 + b2"] exI [of _ "db_commit s2"]) simp
qed

text \<open>
  C6. Let a products file be read to its end by \<open>load_products\<close>, and put a record whose
  \<^verbatim>\<open>category\<close> value is not a key of the category map anywhere into it. Then
  \<open>load_products\<close> logs one more line, at the record's place: the warning that carries
  the missing category and the product's name. It counts one more skipped record and no
  more new ones. And it leaves the very session it leaves without the record: the record
  is neither staged nor inserted. In the loop body the record leaves the session as it
  was.
\<close>

theorem missing_category_never_inserted:
  assumes "category prod_data \<notin> fst ` set cmap" and "NonObj \<notin> set (xs @ ys)"
  shows "\<exists>n k s'. n + k = length (xs @ ys)
       \<and> load_products (Json (xs @ ys)) cmap st =
          (Return (), \<lparr>db = s',
             logger = logger st @ [(INFO, ProcessingProducts (length (xs @ ys)))] @
               missing_category_warnings cmap (xs @ ys) @ [(INFO, ProductsLoaded n k)]\<rparr>)
       \<and> load_products (Json (xs @ Obj prod_data # ys)) cmap st =
          (Return (), \<lparr>db = s',
             logger = logger st @ [(INFO, ProcessingProducts (Suc (length (xs @ ys))))] @
               missing_category_warnings cmap xs @
               [(WARNING, CategoryNotFound (category prod_data) (name prod_data))] @
               missing_category_warnings cmap ys @ [(INFO, ProductsLoaded n (Suc k))]\<rparr>)
       \<and> (\<forall>v st1. product_step cmap (Obj prod_data) v st1 =
            (Return (v\<lparr>skipped_count := skipped_count v + 1\<rparr>),
             st1\<lparr>logger := logger st1 @
               [(WARNING, CategoryNotFound (category prod_data) (name prod_data))]\<rparr>))"
proof -
  have st: "\<lparr>db = db st, logger = logger st\<rparr> = st" by simp
  obtain n k s' where nk: "n + k = length (xs @ ys)"
    and both: "\<And>l. load_products (Json (xs @ ys)) cmap \<lparr>db = db st, logger = l\<rparr> =
          (Return (), \<lparr>db = s',
             logger = l @ [(INFO, ProcessingProducts (length (xs @ ys)))] @
               missing_category_warnings cmap (xs @ ys) @ [(INFO, ProductsLoaded n k)]\<rparr>)
        \<and> load_products (Json (xs @ Obj prod_data # ys)) cmap \<lparr>db = db st, logger = l\<rparr> =
          (Return (), \<lparr>db = s',
             logger = l @ [(INFO, ProcessingProducts (Suc (length (xs @ ys))))] @
               missing_category_warnings cmap xs @
               [(WARNING, CategoryNotFound (category prod_data) (name prod_data))] @
               missing_category_warnings cmap ys @ [(INFO, ProductsLoaded n (Suc k))]\<rparr>)"
    using missing_category_in_file [OF assms, of "db st"] by blast
  have step: "\<forall>v st1. product_step cmap (Obj prod_data) v st1 =
            (Return (v\<lparr>skipped_count := skipped_count v + 1\<rparr>),
             st1\<lparr>logger := logger st1 @
               [(WARNING, CategoryNotFound (category prod_data) (name prod_data))]\<rparr>)"
    using missing_category_step [OF assms(1)] by blast
  show ?thesis using nk both [of "logger st"] step unfolding st by blast
qed

text \<open>The categories file names Toys; the products file holds Ball of Toys and Dune of Books.\<close>

theorem missing_category_never_inserted_witness:
  "category \<lparr>name = Some ''Dune'', price = Some ''15.5'', stock = Some 10, category = Some ''Books''\<rparr> \<notin> fst ` set [(Some ''Toys'', 1::nat)]
 \<and> NonObj \<notin> set ([Obj \<lparr>name = Some ''Ball'', price = Some ''3'', stock = Some 7, category = Some ''Toys''\<rparr>] @ ([] :: string prod_data item list))
 \<and> load_products (Json [Obj \<lparr>name = Some ''Ball'', price = Some ''3'', stock = Some 7, category = Some ''Toys''\<rparr>]) [(Some ''Toys'', 1)] \<lparr>db = SessionLocal True \<lparr>categories = [\<lparr>cat_id = 1, cat_name = Some ''Toys''\<rparr>], products = []\<rparr>, logger = []\<rparr> =
     (Return (),
      \<lparr>db = \<lparr>stored = \<lparr>categories = [\<lparr>cat_id = 1, cat_name = Some ''Toys''\<rparr>],
        products = [\<lparr>prod_id = 1, prod_name = Some ''Ball'', prod_price = Some ''3'',
                     prod_stock = Some 7, category_id = 1\<rparr>]\<rparr>,
              work = \<lparr>categories = [\<lparr>cat_id = 1, cat_name = Some ''Toys''\<rparr>],
        products = [\<lparr>prod_id = 1, prod_name = Some ''Ball'', prod_price = Some ''3'',
                     prod_stock = Some 7, category_id = 1\<rparr>]\<rparr>,
              pending = [], autoflush = True, closed = False\<rparr>,
       logger = [(INFO, ProcessingProducts 1), (INFO, ProductsLoaded 1 0)]\<rparr>)
 \<and> load_products (Json [Obj \<lparr>name = Some ''Ball'', price = Some ''3'', stock = Some 7, category = Some ''Toys''\<rparr>, Obj \<lparr>name = Some ''Dune'', price = Some ''15.5'', stock = Some 10, category = Some ''Books''\<rparr>]) [(Some ''Toys'', 1)] \<lparr>db = SessionLocal True \<lparr>categories = [\<lparr>cat_id = 1, cat_name = Some ''Toys''\<rparr>], products = []\<rparr>, logger = []\<rparr> =
     (Return (),
      \<lparr>db = \<lparr>stored = \<lparr>categories = [\<lparr>cat_id = 1, cat_name = Some ''Toys''\<rparr>],
        products = [\<lparr>prod_id = 1, prod_name = Some ''Ball'', prod_price = Some ''3'',
                     prod_stock = Some 7, category_id = 1\<rparr>]\<rparr>,
              work = \<lparr>categories = [\<lparr>cat_id = 1, cat_name = Some ''Toys''\<rparr>],
        products = [\<lparr>prod_id = 1, prod_name = Some ''Ball'', prod_price = Some ''3'',
                     prod_stock = Some 7, category_id = 1\<rparr>]\<rparr>,
              pending = [], autoflush = True, closed = False\<rparr>,
       logger = [(INFO, ProcessingProducts 2),
                 (WARNING, CategoryNotFound (Some ''Books'') (Some ''Dune'')),
                 (INFO, ProductsLoaded 1 1)]\<rparr>)"
proof -
  have h1: "category \<lparr>name = Some ''Dune'', price = Some ''15.5'', stock = Some 10, category = Some ''Books''\<rparr> \<notin> fst ` set [(Some ''Toys'', 1::nat)]"
    by simp
  have h2: "NonObj \<notin> set ([Obj \<lparr>name = Some ''Ball'', price = Some ''3'', stock = Some 7, category = Some ''Toys''\<rparr>] @ ([] :: string prod_data item list))"
    by simp
  note inst = missing_category_never_inserted [OF h1 h2, where st = "\<lparr>db = SessionLocal True \<lparr>categories = [\<lparr>cat_id = 1, cat_name = Some ''Toys''\<rparr>], products = []\<rparr>, logger = []\<rparr>"]
  have e1: "load_products (Json [Obj \<lparr>name = Some ''Ball'', price = Some ''3'', stock = Some 7, category = Some ''Toys''\<rparr>]) [(Some ''Toys'', 1)] \<lparr>db = SessionLocal True \<lparr>categories = [\<lparr>cat_id = 1, cat_name = Some ''Toys''\<rparr>], products = []\<rparr>, logger = []\<rparr> =
     (Return (),
      \<lparr>db = \<lparr>stored = \<lparr>categories = [\<lparr>cat_id = 1, cat_name = Some ''Toys''\<rparr>],
        products = [\<lparr>prod_id = 1, prod_name = Some ''Ball'', prod_price = Some ''3'',
                     prod_stock = Some 7, category_id = 1\<rparr>]\<rparr>,
              work = \<lparr>categories = [\<lparr>cat_id = 1, cat_name = Some ''Toys''\<rparr>],
        products = [\<lparr>prod_id = 1, prod_name = Some ''Ball'', prod_price = Some ''3'',
                     prod_stock = Some 7, category_id = 1\<rparr>]\<rparr>,
              pending = [], autoflush = True, closed = False\<rparr>,
       logger = [(INFO, ProcessingProducts 1), (INFO, ProductsLoaded 1 0)]\<rparr>)"
    using inst by (simp add: session_ops logger_ops Let_def)
  have e2: "load_products (Json [Obj \<lparr>name = Some ''Ball'', price = Some ''3'', stock = Some 7, category = Some ''Toys''\<rparr>, Obj \<lparr>name = Some ''Dune'', price = Some ''15.5'', stock = Some 10, category = Some ''Books''\<rparr>]) [(Some ''Toys'', 1)] \<lparr>db = SessionLocal True \<lparr>categories = [\<lparr>cat_id = 1, cat_name = Some ''Toys''\<rparr>], products = []\<rparr>, logger = []\<rparr> =
     (Return (),
      \<lparr>db = \<lparr>stored = \<lparr>categories = [\<lparr>cat_id = 1, cat_name = Some ''Toys''\<rparr>],
        products = [\<lparr>prod_id = 1, prod_name = Some ''Ball'', prod_price = Some ''3'',
                     prod_stock = Some 7, category_id = 1\<rparr>]\<rparr>,
              work = \<lparr>categories = [\<lparr>cat_id = 1, cat_name = Some ''Toys''\<rparr>],
        products = [\<lparr>prod_id = 1, prod_name = Some ''Ball'', prod_price = Some ''3'',
                     prod_stock = Some 7, category_id = 1\<rparr>]\<rparr>,
              pending = [], autoflush = True, closed = False\<rparr>,
       logger = [(INFO, ProcessingProducts 2),
                 (WARNING, CategoryNotFound (Some ''Books'') (Some ''Dune'')),
                 (INFO, ProductsLoaded 1 1)]\<rparr>)"
    using inst by (simp add: session_ops logger_ops Let_def)
  from h1 h2 e1 e2 show ?thesis by (intro conjI)
qed

text \<open>
  C10. A product record with no \<^verbatim>\<open>category\<close> key, or with a null one, reads as
  \<^verbatim>\<open>None\<close>, and \<^verbatim>\<open>None\<close> is not a key of any map that \<open>load_categories\<close> returns. So
  \<open>load_products\<close>, given such a map, treats the record as one of an unknown category:
  put anywhere into a file that it reads to its end, the record adds the warning (with
  \<^verbatim>\<open>None\<close> for the category) at its place in the log and one to the skipped records,
  adds nothing to the new ones, and leaves the session that the file leaves without it.
\<close>

theorem absent_category_never_inserted:
  assumes "load_categories cf st0 = (Return cmap, st1)"
      and "category prod_data = None"
      and "NonObj \<notin> set (xs @ ys)"
  shows "None \<notin> fst ` set cmap
       \<and> (\<exists>n k s'. n + k = length (xs @ ys)
         \<and> load_products (Json (xs @ ys)) cmap st =
            (Return (), \<lparr>db = s',
               logger = logger st @ [(INFO, ProcessingProducts (length (xs @ ys)))] @
                 missing_category_warnings cmap (xs @ ys) @ [(INFO, ProductsLoaded n k)]\<rparr>)
         \<and> load_products (Json (xs @ Obj prod_data # ys)) cmap st =
            (Return (), \<lparr>db = s',
               logger = logger st @ [(INFO, ProcessingProducts (Suc (length (xs @ ys))))] @
                 missing_category_warnings cmap xs @
                 [(WARNING, CategoryNotFound None (name prod_data))] @
                 missing_category_warnings cmap ys @ [(INFO, ProductsLoaded n (Suc k))]\<rparr>))"
proof -
  have st: "\<lparr>db = db st, logger = logger st\<rparr> = st" by simp
  have nokey: "None \<notin> fst ` set cmap"
    using load_categories_keys [OF assms(1)] by force
  then have "category prod_data \<notin> fst ` set cmap" using assms(2) by simp
  then obtain n k s' where nk: "n + k = length (xs @ ys)"
    and both: "\<And>l. load_products (Json (xs @ ys)) cmap \<lparr>db = db st, logger = l\<rparr> =
          (Return (), \<lparr>db = s',
             logger = l @ [(INFO, ProcessingProducts (length (xs @ ys)))] @
               missing_category_warnings cmap (xs @ ys) @ [(INFO, ProductsLoaded n k)]\<rparr>)
        \<and> load_products (Json (xs @ Obj prod_data # ys)) cmap \<lparr>db = db st, logger = l\<rparr> =
          (Return (), \<lparr>db = s',
             logger = l @ [(INFO, ProcessingProducts (Suc (length (xs @ ys))))] @
               missing_category_warnings cmap xs @
               [(WARNING, CategoryNotFound (category prod_data) (name prod_data))] @
               missing_category_warnings cmap ys @ [(INFO, ProductsLoaded n (Suc k))]\<rparr>)"
    using missing_category_in_file [OF _ assms(3), of prod_data cmap "db st"] by blast
  show ?thesis using nokey nk both [of "logger st"] unfolding st assms(2) by blast
qed

text \<open>
  The map is the one \<open>load_categories\<close> returns for a file that names Books, and the
  products file holds one record, Dune, with no category.
\<close>

theorem absent_category_never_inserted_witness:
  "load_categories (Json [Obj \<lparr>c_name = Some ''Books''\<rparr>])
     \<lparr>db = SessionLocal True (\<lparr>categories = [], products = []\<rparr> :: string database), logger = []\<rparr> =
     (Return [(Some ''Books'', 1)],
      \<lparr>db = \<lparr>stored = \<lparr>categories = [\<lparr>cat_id = 1, cat_name = Some ''Books''\<rparr>], products = []\<rparr>,
              work = \<lparr>categories = [\<lparr>cat_id = 1, cat_name = Some ''Books''\<rparr>], products = []\<rparr>,
              pending = [], autoflush = True, closed = False\<rparr>,
       logger = [(INFO, ProcessingCategories 1), (INFO, CategoriesLoaded 1 0)]\<rparr>)
 \<and> load_products (Json [Obj \<lparr>name = Some ''Dune'', price = Some ''15.5'', stock = Some 10, category = None\<rparr>]) [(Some ''Books'', 1)]
      \<lparr>db = \<lparr>stored = \<lparr>categories = [\<lparr>cat_id = 1, cat_name = Some ''Books''\<rparr>], products = []\<rparr>,
              work = \<lparr>categories = [\<lparr>cat_id = 1, cat_name = Some ''Books''\<rparr>], products = []\<rparr>,
              pending = [], autoflush = True, closed = False\<rparr>,
       logger = [(INFO, ProcessingCategories 1), (INFO, CategoriesLoaded 1 0)]\<rparr> =
     (Return (),
      \<lparr>db = \<lparr>stored = \<lparr>categories = [\<lparr>cat_id = 1, cat_name = Some ''Books''\<rparr>], products = []\<rparr>,
              work = \<lparr>categories = [\<lparr>cat_id = 1, cat_name = Some ''Books''\<rparr>], products = []\<rparr>,
              pending = [], autoflush = True, closed = False\<rparr>,
       logger = [(INFO, ProcessingCategories 1), (INFO, CategoriesLoaded 1 0),
                 (INFO, ProcessingProducts 1),
                 (WARNING, CategoryNotFound None (Some ''Dune'')),
                 (INFO, ProductsLoaded 0 1)]\<rparr>)"
proof -
  have h1: "load_categories (Json [Obj \<lparr>c_name = Some ''Books''\<rparr>])
     \<lparr>db = SessionLocal True (\<lparr>categories = [], products = []\<rparr> :: string database), logger = []\<rparr> =
     (Return [(Some ''Books'', 1)],
      \<lparr>db = \<lparr>stored = \<lparr>categories = [\<lparr>cat_id = 1, cat_name = Some ''Books''\<rparr>], products = []\<rparr>,
              work = \<lparr>categories = [\<lparr>cat_id = 1, cat_name = Some ''Books''\<rparr>], products = []\<rparr>,
              pending = [], autoflush = True, closed = False\<rparr>,
       logger = [(INFO, ProcessingCategories 1), (INFO, CategoriesLoaded 1 0)]\<rparr>)"
    by (simp add: session_ops logger_ops Let_def)
  have h2: "category \<lparr>name = Some ''Dune'', price = Some ''15.5'', stock = Some 10, category = None\<rparr> = None"
    by simp
  have h3: "NonObj \<notin> set (([] :: string prod_data item list) @ [])"
    by simp
  note inst = absent_category_never_inserted [OF h1 h2 h3, where st = "\<lparr>db = \<lparr>stored = \<lparr>categories = [\<lparr>cat_id = 1, cat_name = Some ''Books''\<rparr>], products = []\<rparr>,
              work = \<lparr>categories = [\<lparr>cat_id = 1, cat_name = Some ''Books''\<rparr>], products = []\<rparr>,
              pending = [], autoflush = True, closed = False\<rparr>,
       logger = [(INFO, ProcessingCategories 1), (INFO, CategoriesLoaded 1 0)]\<rparr>"]
  have e2: "load_products (Json [Obj \<lparr>name = Some ''Dune'', price = Some ''15.5'', stock = Some 10, category = None\<rparr>]) [(Some ''Books'', 1)]
      \<lparr>db = \<lparr>stored = \<lparr>categories = [\<lparr>cat_id = 1, cat_name = Some ''Books''\<rparr>], products = []\<rparr>,
              work = \<lparr>categories = [\<lparr>cat_id = 1, cat_name = Some ''Books''\<rparr>], products = []\<rparr>,
              pending = [], autoflush = True, closed = False\<rparr>,
       logger = [(INFO, ProcessingCategories 1), (INFO, CategoriesLoaded 1 0)]\<rparr> =
     (Return (),
      \<lparr>db = \<lparr>stored = \<lparr>categories = [\<lparr>cat_id = 1, cat_name = Some ''Books''\<rparr>], products = []\<rparr>,
              work = \<lparr>categories = [\<lparr>cat_id = 1, cat_name = Some ''Books''\<rparr>], products = []\<rparr>,
              pending = [], autoflush = True, closed = False\<rparr>,
       logger = [(INFO, ProcessingCategories 1), (INFO, CategoriesLoaded 1 0),
                 (INFO, ProcessingProducts 1),
                 (WARNING, CategoryNotFound None (Some ''Dune'')),
                 (INFO, ProductsLoaded 0 1)]\<rparr>)"
    using inst by (simp add: session_ops logger_ops Let_def)
  from h1 e2 show ?thesis by (rule conjI)
qed

text \<open>
  With autoflush on, a query flushes what is staged. A loop started after such a flush
  ends in the session the unflushed loop ends in, or in that session flushed, with the
  same counts; the commit makes the two the same.
\<close>

lemma db_flush_idem: "snd (db_flush (snd (db_flush s))) = snd (db_flush s)"
  by (simp add: db_flush_nothing db_flush_pending)

lemma db_flush_autoflush: "autoflush (snd (db_flush s)) = autoflush s"
  by (simp add: db_flush_def case_prod_unfold)

lemma before_query_autoflush: "autoflush (before_query s) = autoflush s"
  by (simp add: before_query_def db_flush_autoflush)

lemma db_commit_flushed: "db_commit (snd (db_flush s)) = db_commit s"
  by (simp add: db_commit_def db_flush_idem)

lemma before_query_flushed:
  "autoflush s \<Longrightarrow> before_query (snd (db_flush s)) = before_query s"
  by (simp add: before_query_def db_flush_autoflush db_flush_idem)

lemma product_step_flushed:
  assumes "autoflush s"
  shows "\<exists>a b s1 s1'. a + b = 1
     \<and> (\<forall>v l. product_step cmap (Obj r) v \<lparr>db = s, logger = l\<rparr> =
          (Return (v\<lparr>p_new_count := p_new_count v + a, skipped_count := skipped_count v + b\<rparr>),
           \<lparr>db = s1, logger = l @ missing_category_warnings cmap [Obj r]\<rparr>))
     \<and> (\<forall>v l. product_step cmap (Obj r) v \<lparr>db = snd (db_flush s), logger = l\<rparr> =
          (Return (v\<lparr>p_new_count := p_new_count v + a, skipped_count := skipped_count v + b\<rparr>),
           \<lparr>db = s1', logger = l @ missing_category_warnings cmap [Obj r]\<rparr>))
     \<and> (s1' = s1 \<or> s1' = snd (db_flush s1)) \<and> autoflush s1"
proof (cases "map_of cmap (category r)")
  case None
  then have nk: "category r \<notin> fst ` set cmap" by (simp add: map_of_eq_None_iff)
  have "\<forall>v l. product_step cmap (Obj r) v \<lparr>db = s, logger = l\<rparr> =
        (Return (v\<lparr>p_new_count := p_new_count v + 0, skipped_count := skipped_count v + 1\<rparr>),
         \<lparr>db = s, logger = l @ missing_category_warnings cmap [Obj r]\<rparr>)"
    using None nk by (simp add: logger_warning_def)
  moreover have "\<forall>v l. product_step cmap (Obj r) v \<lparr>db = snd (db_flush s), logger = l\<rparr> =
        (Return (v\<lparr>p_new_count := p_new_count v + 0, skipped_count := skipped_count v + 1\<rparr>),
         \<lparr>db = snd (db_flush s), logger = l @ missing_category_warnings cmap [Obj r]\<rparr>)"
    using None nk by (simp add: logger_warning_def)
  ultimately show ?thesis using assms
    by (intro exI [of _ 0] exI [of _ 1] exI [of _ s] exI [of _ "snd (db_flush s)"]) simp
next
  case (Some cid)
  then have k: "category r \<in> fst ` set cmap" by (metis map_of_eq_None_iff option.distinct(1))
  have bq: "before_query (snd (db_flush s)) = before_query s"
    using assms by (rule before_query_flushed)
  show ?thesis
  proof (cases "find (\<lambda>p. prod_name p = name r) (products (work (before_query s)))")
    case None
    let ?s1 = "db_add (ProductModel (name r) (price r) (stock r) cid) (before_query s)"
    have "\<forall>v l. product_step cmap (Obj r) v \<lparr>db = s, logger = l\<rparr> =
        (Return (v\<lparr>p_new_count := p_new_count v + 1, skipped_count := skipped_count v + 0\<rparr>),
         \<lparr>db = ?s1, logger = l @ missing_category_warnings cmap [Obj r]\<rparr>)"
      using Some None k by (simp add: query_product_def Let_def)
    moreover have "\<forall>v l. product_step cmap (Obj r) v \<lparr>db = snd (db_flush s), logger = l\<rparr> =
        (Return (v\<lparr>p_new_count := p_new_count v + 1, skipped_count := skipped_count v + 0\<rparr>),
         \<lparr>db = ?s1, logger = l @ missing_category_warnings cmap [Obj r]\<rparr>)"
      using Some None k bq by (simp add: query_product_def Let_def)
    moreover have "autoflush ?s1" using assms by (simp add: db_add_def before_query_autoflush)
    ultimately show ?thesis
      by (intro exI [of _ 1] exI [of _ 0] exI [of _ ?s1] exI [of _ ?s1]) simp
  next
    case found: (Some q)
    let ?s1 = "before_query s"
    have "\<forall>v l. product_step cmap (Obj r) v \<lparr>db = s, logger = l\<rparr> =
        (Return (v\<lparr>p_new_count := p_new_count v + 0, skipped_count := skipped_count v + 1\<rparr>),
         \<lparr>db = ?s1, logger = l @ missing_category_warnings cmap [Obj r]\<rparr>)"
      using Some found k by (simp add: query_product_def Let_def)
    moreover have "\<forall>v l. product_step cmap (Obj r) v \<lparr>db = snd (db_flush s), logger = l\<rparr> =
        (Return (v\<lparr>p_new_count := p_new_count v + 0, skipped_count := skipped_count v + 1\<rparr>),
         \<lparr>db = ?s1, logger = l @ missing_category_warnings cmap [Obj r]\<rparr>)"
      using Some found k bq by (simp add: query_product_def Let_def)
    moreover have "autoflush ?s1" using assms by (simp add: before_query_autoflush)
    ultimately show ?thesis
      by (intro exI [of _ 0] exI [of _ 1] exI [of _ ?s1] exI [of _ ?s1]) simp
  qed
qed

lemma products_loop_flushed:
  assumes "autoflush s" and "NonObj \<notin> set xs"
  shows "\<exists>a b s1 s1'. a + b = length xs
     \<and> (\<forall>v l. products_loop cmap xs v \<lparr>db = s, logger = l\<rparr> =
          (Return (v\<lparr>p_new_count := p_new_count v + a, skipped_count := skipped_count v + b\<rparr>),
           \<lparr>db = s1, logger = l @ missing_category_warnings cmap xs\<rparr>))
     \<and> (\<forall>v l. products_loop cmap xs v \<lparr>db = snd (db_flush s), logger = l\<rparr> =
          (Return (v\<lparr>p_new_count := p_new_count v + a, skipped_count := skipped_count v + b\<rparr>),
           \<lparr>db = s1', logger = l @ missing_category_warnings cmap xs\<rparr>))
     \<and> (s1' = s1 \<or> s1' = snd (db_flush s1))"
  using assms
proof (induction xs arbitrary: s)
  case Nil
  have "\<forall>v l. products_loop cmap [] v \<lparr>db = s, logger = l\<rparr> =
        (Return (v\<lparr>p_new_count := p_new_count v + 0, skipped_count := skipped_count v + 0\<rparr>),
         \<lparr>db = s, logger = l @ missing_category_warnings cmap []\<rparr>)"
    by simp
  moreover have "\<forall>v l. products_loop cmap [] v \<lparr>db = snd (db_flush s), logger = l\<rparr> =
        (Return (v\<lparr>p_new_count := p_new_count v + 0, skipped_count := skipped_count v + 0\<rparr>),
         \<lparr>db = snd (db_flush s), logger = l @ missing_category_warnings cmap []\<rparr>)"
    by simp
  ultimately show ?case
    by (intro exI [of _ 0] exI [of _ s] exI [of _ "snd (db_flush s)"]) simp
next
  case (Cons x xs)
  from Cons.prems(2) obtain r where x: "x = Obj r" by (cases x) auto
  have nx: "NonObj \<notin> set xs" using Cons.prems(2) by simp
  obtain a1 b1 sa sa' where ab1: "a1 + b1 = 1"
    and st1: "\<And>v l. product_step cmap (Obj r) v \<lparr>db = s, logger = l\<rparr> =
          (Return (v\<lparr>p_new_count := p_new_count v + a1, skipped_count := skipped_count v + b1\<rparr>),
           \<lparr>db = sa, logger = l @ missing_category_warnings cmap [Obj r]\<rparr>)"
    and st2: "\<And>v l. product_step cmap (Obj r) v \<lparr>db = snd (db_flush s), logger = l\<rparr> =
          (Return (v\<lparr>p_new_count := p_new_count v + a1, skipped_count := skipped_count v + b1\<rparr>),
           \<lparr>db = sa', logger = l @ missing_category_warnings cmap [Obj r]\<rparr>)"
    and rel: "sa' = sa \<or> sa' = snd (db_flush sa)" and af: "autoflush sa"
    using product_step_flushed [OF Cons.prems(1), of cmap r] by blast
  obtain a2 b2 se se' where ab2: "a2 + b2 = length xs"
    and l1: "\<And>v l. products_loop cmap xs v \<lparr>db = sa, logger = l\<rparr> =
          (Return (v\<lparr>p_new_count := p_new_count v + a2, skipped_count := skipped_count v + b2\<rparr>),
           \<lparr>db = se, logger = l @ missing_category_warnings cmap xs\<rparr>)"
    and l2: "\<And>v l. products_loop cmap xs v \<lparr>db = snd (db_flush sa), logger = l\<rparr> =
          (Return (v\<lparr>p_new_count := p_new_count v + a2, skipped_count := skipped_count v + b2\<rparr>),
           \<lparr>db = se', logger = l @ missing_category_warnings cmap xs\<rparr>)"
    and rel2: "se' = se \<or> se' = snd (db_flush se)"
    using Cons.IH [OF af nx] by blast
  have w: "missing_category_warnings cmap (Obj r # xs) =
           missing_category_warnings cmap [Obj r] @ missing_category_warnings cmap xs"
    by simp
  have from_s: "\<forall>v l. products_loop cmap (x # xs) v \<lparr>db = s, logger = l\<rparr> =
        (Return (v\<lparr>p_new_count := p_new_count v + (a1 + a2), skipped_count := skipped_count v + (b1 + b2)\<rparr>),
         \<lparr>db = se, logger = l @ missing_category_warnings cmap (x # xs)\<rparr>)"
    unfolding x w by (simp add: st1 l1 del: missing_category_warnings.simps product_step.simps)
  have len: "(a1 + a2) + (b1 + b2) = length (x # xs)" using ab1 ab2 by simp
  from rel show ?case
  proof
    assume "sa' = sa"
    then have "\<forall>v l. products_loop cmap (x # xs) v \<lparr>db = snd (db_flush s), logger = l\<rparr> =
        (Return (v\<lparr>p_new_count := p_new_count v + (a1 + a2), skipped_count := skipped_count v + (b1 + b2)\<rparr>),
         \<lparr>db = se, logger = l @ missing_category_warnings cmap (x # xs)\<rparr>)"
      unfolding x w by (simp add: st2 l1 del: missing_category_warnings.simps product_step.simps)
    then show ?thesis using from_s len by blast
  next
    assume "sa' = snd (db_flush sa)"
    then have "\<forall>v l. products_loop cmap (x # xs) v \<lparr>db = snd (db_flush s), logger = l\<rparr> =
        (Return (v\<lparr>p_new_count := p_new_count v + (a1 + a2), skipped_count := skipped_count v + (b1 + b2)\<rparr>),
         \<lparr>db = se', logger = l @ missing_category_warnings cmap (x # xs)\<rparr>)"
      unfolding x w by (simp add: st2 l2 del: missing_category_warnings.simps product_step.simps)
    then show ?thesis using from_s len rel2 by blast
  qed
qed

lemma product_step_products:
  "\<exists>new. products (work (db (snd (product_step cmap x v st)))) = products (work (db st)) @ new"
proof (cases x)
  case NonObj
  then show ?thesis by simp
next
  case (Obj r)
  obtain new where "products (work (before_query (db st))) = products (work (db st)) @ new"
    using before_query_products by blast
  then show ?thesis using Obj
    by (auto simp: Let_def query_product_def logger_warning_def db_add_def split: option.splits)
qed

lemma products_loop_products:
  "\<exists>new. products (work (db (snd (products_loop cmap xs v st)))) = products (work (db st)) @ new"
proof (induction xs arbitrary: v st)
  case Nil
  then show ?case by simp
next
  case (Cons x xs)
  obtain r st1 where step: "product_step cmap x v st = (r, st1)" by (cases "product_step cmap x v st")
  obtain n1 where n1: "products (work (db st1)) = products (work (db st)) @ n1"
    using product_step_products [of cmap x v st] step by auto
  show ?case
  proof (cases r)
    case (Return v1)
    obtain n2 where "products (work (db (snd (products_loop cmap xs v1 st1)))) = products (work (db st1)) @ n2"
      using Cons.IH [of v1 st1] by blast
    then show ?thesis using step Return n1 by simp
  next
    case (Raise e)
    then show ?thesis using step n1 by simp
  qed
qed

lemma product_step_autoflush:
  "autoflush (db (snd (product_step cmap x v st))) = autoflush (db st)"
proof (cases x)
  case NonObj
  then show ?thesis by simp
next
  case (Obj r)
  then show ?thesis
    by (auto simp: Let_def query_product_def logger_warning_def db_add_def before_query_autoflush
        split: option.splits)
qed

lemma products_loop_autoflush:
  "autoflush (db (snd (products_loop cmap xs v st))) = autoflush (db st)"
proof (induction xs arbitrary: v st)
  case Nil
  then show ?case by simp
next
  case (Cons x xs)
  obtain r st1 where step: "product_step cmap x v st = (r, st1)" by (cases "product_step cmap x v st")
  have a1: "autoflush (db st1) = autoflush (db st)"
    using product_step_autoflush [of cmap x v st] step by simp
  show ?case
  proof (cases r)
    case (Return v1)
    then show ?thesis using step a1 Cons.IH [of v1 st1] by simp
  next
    case (Raise e)
    then show ?thesis using step a1 by simp
  qed
qed

lemma db_commit_products: "\<exists>new. products (stored (db_commit s)) = products (work s) @ new"
  using insert_all_products [of "pending s" "work s"] db_commit_clean [of s]
  by (simp add: db_flush_work)

lemma existing_product_in_file:
  assumes "p \<in> set (products (work s))" and "prod_name p = name r"
      and "NonObj \<notin> set (xs @ ys)"
  shows "\<exists>n k s'. n + k = length (xs @ ys)
     \<and> (\<forall>l. load_products (Json (xs @ ys)) cmap \<lparr>db = s, logger = l\<rparr> =
          (Return (), \<lparr>db = s',
             logger = l @ [(INFO, ProcessingProducts (length (xs @ ys)))] @
               missing_category_warnings cmap (xs @ ys) @ [(INFO, ProductsLoaded n k)]\<rparr>)
        \<and> load_products (Json (xs @ Obj r # ys)) cmap \<lparr>db = s, logger = l\<rparr> =
          (Return (), \<lparr>db = s',
             logger = l @ [(INFO, ProcessingProducts (Suc (length (xs @ ys))))] @
               missing_category_warnings cmap (xs @ Obj r # ys) @
               [(INFO, ProductsLoaded n (Suc k))]\<rparr>))
     \<and> (\<exists>new. products (stored s') = products (work s) @ new)"
proof -
  have nx: "NonObj \<notin> set xs" and ny: "NonObj \<notin> set ys" using assms(3) by auto
  obtain a1 b1 s1 where ab1: "a1 + b1 = length xs"
    and lx: "\<And>v l. products_loop cmap xs v \<lparr>db = s, logger = l\<rparr> =
        (Return (v\<lparr>p_new_count := p_new_count v + a1, skipped_count := skipped_count v + b1\<rparr>),
         \<lparr>db = s1, logger = l @ missing_category_warnings cmap xs\<rparr>)"
    using products_loop_uniform [OF nx, of cmap s] by blast
  have s1: "s1 = db (snd (products_loop cmap xs v0 \<lparr>db = s, logger = []\<rparr>))" for v0
    by (simp add: lx)
  obtain n1 where n1: "products (work s1) = products (work s) @ n1"
    using products_loop_products [of cmap xs undefined "\<lparr>db = s, logger = []\<rparr>"] s1 [of undefined]
    by auto
  have af1: "autoflush s1 = autoflush s"
    using products_loop_autoflush [of cmap xs undefined "\<lparr>db = s, logger = []\<rparr>"] s1 [of undefined]
    by simp
  \<comment> \<open>the record's own step, and the loop over \<open>ys\<close> after it\<close>
  have "\<exists>a2 b2 s2 s2'. a2 + b2 = length ys
     \<and> (\<forall>v l. products_loop cmap ys v \<lparr>db = s1, logger = l\<rparr> =
          (Return (v\<lparr>p_new_count := p_new_count v + a2, skipped_count := skipped_count v + b2\<rparr>),
           \<lparr>db = s2, logger = l @ missing_category_warnings cmap ys\<rparr>))
     \<and> (\<forall>v l. products_loop cmap (Obj r # ys) v \<lparr>db = s1, logger = l\<rparr> =
          (Return (v\<lparr>p_new_count := p_new_count v + a2, skipped_count := skipped_count v + Suc b2\<rparr>),
           \<lparr>db = s2', logger = l @ missing_category_warnings cmap (Obj r # ys)\<rparr>))
     \<and> (s2' = s2 \<or> s2' = snd (db_flush s2))"
  proof (cases "map_of cmap (category r)")
    case None
    then have nk: "category r \<notin> fst ` set cmap" by (simp add: map_of_eq_None_iff)
    obtain a2 b2 s2 where ab2: "a2 + b2 = length ys"
      and ly: "\<And>v l. products_loop cmap ys v \<lparr>db = s1, logger = l\<rparr> =
        (Return (v\<lparr>p_new_count := p_new_count v + a2, skipped_count := skipped_count v + b2\<rparr>),
         \<lparr>db = s2, logger = l @ missing_category_warnings cmap ys\<rparr>)"
      using products_loop_uniform [OF ny, of cmap s1] by blast
    have lr: "\<And>v l. product_step cmap (Obj r) v \<lparr>db = s1, logger = l\<rparr> =
        (Return (v\<lparr>skipped_count := skipped_count v + 1\<rparr>),
         \<lparr>db = s1, logger = l @ [(WARNING, CategoryNotFound (category r) (name r))]\<rparr>)"
      using None by (simp add: logger_warning_def)
    have "\<forall>v l. products_loop cmap (Obj r # ys) v \<lparr>db = s1, logger = l\<rparr> =
          (Return (v\<lparr>p_new_count := p_new_count v + a2, skipped_count := skipped_count v + Suc b2\<rparr>),
           \<lparr>db = s2, logger = l @ missing_category_warnings cmap (Obj r # ys)\<rparr>)"
      using nk by (simp add: lr ly del: product_step.simps)
    then show ?thesis using ab2 ly by blast
  next
    case (Some cid)
    then have k: "category r \<in> fst ` set cmap" by (metis map_of_eq_None_iff option.distinct(1))
    obtain n2 where "products (work (before_query s1)) = products (work s1) @ n2"
      using before_query_products by blast
    then have "p \<in> set (products (work (before_query s1)))" using assms(1) n1 by simp
    then have "find (\<lambda>q. prod_name q = name r) (products (work (before_query s1))) \<noteq> None"
      using assms(2) by (auto simp: find_None_iff)
    then obtain q where q: "find (\<lambda>q. prod_name q = name r) (products (work (before_query s1))) = Some q"
      by blast
    have lr: "\<And>v l. product_step cmap (Obj r) v \<lparr>db = s1, logger = l\<rparr> =
        (Return (v\<lparr>skipped_count := skipped_count v + 1\<rparr>), \<lparr>db = before_query s1, logger = l\<rparr>)"
      using Some q by (simp add: query_product_def Let_def)
    show ?thesis
    proof (cases "autoflush s1")
      case False
      then have bq: "before_query s1 = s1" by (simp add: before_query_def)
      obtain a2 b2 s2 where ab2: "a2 + b2 = length ys"
        and ly: "\<And>v l. products_loop cmap ys v \<lparr>db = s1, logger = l\<rparr> =
          (Return (v\<lparr>p_new_count := p_new_count v + a2, skipped_count := skipped_count v + b2\<rparr>),
           \<lparr>db = s2, logger = l @ missing_category_warnings cmap ys\<rparr>)"
        using products_loop_uniform [OF ny, of cmap s1] by blast
      have "\<forall>v l. products_loop cmap (Obj r # ys) v \<lparr>db = s1, logger = l\<rparr> =
          (Return (v\<lparr>p_new_count := p_new_count v + a2, skipped_count := skipped_count v + Suc b2\<rparr>),
           \<lparr>db = s2, logger = l @ missing_category_warnings cmap (Obj r # ys)\<rparr>)"
        using k bq by (simp add: lr ly del: product_step.simps)
      then show ?thesis using ab2 ly by blast
    next
      case True
      then have bq: "before_query s1 = snd (db_flush s1)" by (simp add: before_query_def)
      obtain a2 b2 s2 s2' where ab2: "a2 + b2 = length ys"
        and ly: "\<And>v l. products_loop cmap ys v \<lparr>db = s1, logger = l\<rparr> =
          (Return (v\<lparr>p_new_count := p_new_count v + a2, skipped_count := skipped_count v + b2\<rparr>),
           \<lparr>db = s2, logger = l @ missing_category_warnings cmap ys\<rparr>)"
        and ly': "\<And>v l. products_loop cmap ys v \<lparr>db = snd (db_flush s1), logger = l\<rparr> =
          (Return (v\<lparr>p_new_count := p_new_count v + a2, skipped_count := skipped_count v + b2\<rparr>),
           \<lparr>db = s2', logger = l @ missing_category_warnings cmap ys\<rparr>)"
        and rel: "s2' = s2 \<or> s2' = snd (db_flush s2)"
        using products_loop_flushed [OF True ny, of cmap] by blast
      have "\<forall>v l. products_loop cmap (Obj r # ys) v \<lparr>db = s1, logger = l\<rparr> =
          (Return (v\<lparr>p_new_count := p_new_count v + a2, skipped_count := skipped_count v + Suc b2\<rparr>),
           \<lparr>db = s2', logger = l @ missing_category_warnings cmap (Obj r # ys)\<rparr>)"
        using k bq by (simp add: lr ly' del: product_step.simps)
      then show ?thesis using ab2 ly rel by blast
    qed
  qed
  then obtain a2 b2 s2 s2' where ab2: "a2 + b2 = length ys"
    and ly: "\<And>v l. products_loop cmap ys v \<lparr>db = s1, logger = l\<rparr> =
          (Return (v\<lparr>p_new_count := p_new_count v + a2, skipped_count := skipped_count v + b2\<rparr>),
           \<lparr>db = s2, logger = l @ missing_category_warnings cmap ys\<rparr>)"
    and lry: "\<And>v l. products_loop cmap (Obj r # ys) v \<lparr>db = s1, logger = l\<rparr> =
          (Return (v\<lparr>p_new_count := p_new_count v + a2, skipped_count := skipped_count v + Suc b2\<rparr>),
           \<lparr>db = s2', logger = l @ missing_category_warnings cmap (Obj r # ys)\<rparr>)"
    and rel: "s2' = s2 \<or> s2' = snd (db_flush s2)"
    by blast
  have commit: "db_commit s2' = db_commit s2" using rel db_commit_flushed by auto
  have without: "\<And>v l. products_loop cmap (xs @ ys) v \<lparr>db = s, logger = l\<rparr> =
        (Return (v\<lparr>p_new_count := p_new_count v + (a1 + a2), skipped_count := skipped_count v + (b1 + b2)\<rparr>),
         \<lparr>db = s2, logger = l @ missing_category_warnings cmap (xs @ ys)\<rparr>)"
    by (simp add: products_loop_append lx ly missing_category_warnings_append)
  have with_r: "\<And>v l. products_loop cmap (xs @ Obj r # ys) v \<lparr>db = s, logger = l\<rparr> =
        (Return (v\<lparr>p_new_count := p_new_count v + (a1 + a2), skipped_count := skipped_count v + Suc (b1 + b2)\<rparr>),
         \<lparr>db = s2', logger = l @ missing_category_warnings cmap (xs @ Obj r # ys)\<rparr>)"
    by (simp add: products_loop_append lx lry missing_category_warnings_append
        del: product_step.simps products_loop.simps missing_category_warnings.simps)
  have l1: "\<And>l. load_products (Json (xs @ ys)) cmap \<lparr>db = s, logger = l\<rparr> =
          (Return (), \<lparr>db = db_commit s2,
             logger = l @ [(INFO, ProcessingProducts (length (xs @ ys)))] @
               missing_category_warnings cmap (xs @ ys) @ [(INFO, ProductsLoaded (a1 + a2) (b1 + b2))]\<rparr>)"
    by (rule load_products_json_eq) (simp add: without)
  have l2: "\<And>l. load_products (Json (xs @ Obj r # ys)) cmap \<lparr>db = s, logger = l\<rparr> =
          (Return (), \<lparr>db = db_commit s2',
             logger = l @ [(INFO, ProcessingProducts (length (xs @ Obj r # ys)))] @
               missing_category_warnings cmap (xs @ Obj r # ys) @
               [(INFO, ProductsLoaded (a1 + a2) (Suc (b1 + b2)))]\<rparr>)"
    by (rule load_products_json_eq) (simp add: with_r del: missing_category_warnings.simps)
  have s2: "s2 = db (snd (products_loop cmap (xs @ ys) undefined \<lparr>db = s, logger = []\<rparr>))"
    by (simp add: without)
  obtain n3 where n3: "products (work s2) = products (work s) @ n3"
    using products_loop_products [of cmap "xs @ ys" undefined "\<lparr>db = s, logger = []\<rparr>"] s2 by auto
  obtain n4 where "products (stored (db_commit s2)) = products (work s2) @ n4"
    using db_commit_products by blast
  then have pre: "\<exists>new. products (stored (db_commit s2)) = products (work s) @ new"
    using n3 by simp
  have len: "(a1 + a2) + (b1 + b2) = length (xs @ ys)" using ab1 ab2 by simp
  show ?thesis
    using len l1 l2 pre unfolding commit
    by (intro exI [of _ "a1 + a2"] exI [of _ "b1 + b2"] exI [of _ "db_commit s2"]) simp
qed

text \<open>
  C4. Let a products file be read to its end by \<open>load_products\<close>, and put a record whose
  name is that of a product row of the database anywhere into it, whatever its price, its
  stock and its category. Then \<open>load_products\<close> counts one more skipped record and no more
  new ones, and after its commit the session is the very one the file leaves without the
  record: no field of any row is changed and no row is added for it. The product rows
  that were there are still there, in place. In the loop body the record adds one to
  \<open>skipped_count\<close> and stages nothing.
\<close>

theorem existing_product_never_updated:
  assumes "p \<in> set (products (work (db st)))" and "prod_name p = name prod_data"
      and "NonObj \<notin> set (xs @ ys)"
  shows "(\<exists>n k s'. n + k = length (xs @ ys)
       \<and> load_products (Json (xs @ ys)) cmap st =
          (Return (), \<lparr>db = s',
             logger = logger st @ [(INFO, ProcessingProducts (length (xs @ ys)))] @
               missing_category_warnings cmap (xs @ ys) @ [(INFO, ProductsLoaded n k)]\<rparr>)
       \<and> load_products (Json (xs @ Obj prod_data # ys)) cmap st =
          (Return (), \<lparr>db = s',
             logger = logger st @ [(INFO, ProcessingProducts (Suc (length (xs @ ys))))] @
               missing_category_warnings cmap (xs @ Obj prod_data # ys) @
               [(INFO, ProductsLoaded n (Suc k))]\<rparr>)
       \<and> (\<exists>new. products (stored s') = products (work (db st)) @ new))
     \<and> (\<exists>st'. product_step cmap (Obj prod_data) v st =
            (Return (v\<lparr>skipped_count := skipped_count v + 1\<rparr>), st')
          \<and> (db st' = db st \<or> db st' = before_query (db st))
          \<and> stored (db st') = stored (db st))"
proof -
  have st: "\<lparr>db = db st, logger = logger st\<rparr> = st" by simp
  obtain n k s' where nk: "n + k = length (xs @ ys)"
    and both: "\<And>l. load_products (Json (xs @ ys)) cmap \<lparr>db = db st, logger = l\<rparr> =
          (Return (), \<lparr>db = s',
             logger = l @ [(INFO, ProcessingProducts (length (xs @ ys)))] @
               missing_category_warnings cmap (xs @ ys) @ [(INFO, ProductsLoaded n k)]\<rparr>)
        \<and> load_products (Json (xs @ Obj prod_data # ys)) cmap \<lparr>db = db st, logger = l\<rparr> =
          (Return (), \<lparr>db = s',
             logger = l @ [(INFO, ProcessingProducts (Suc (length (xs @ ys))))] @
               missing_category_warnings cmap (xs @ Obj prod_data # ys) @
               [(INFO, ProductsLoaded n (Suc k))]\<rparr>)"
    and pre: "\<exists>new. products (stored s') = products (work (db st)) @ new"
    using existing_product_in_file [OF assms, of cmap] by blast
  have whole: "\<exists>n k s'. n + k = length (xs @ ys)
       \<and> load_products (Json (xs @ ys)) cmap st =
          (Return (), \<lparr>db = s',
             logger = logger st @ [(INFO, ProcessingProducts (length (xs @ ys)))] @
               missing_category_warnings cmap (xs @ ys) @ [(INFO, ProductsLoaded n k)]\<rparr>)
       \<and> load_products (Json (xs @ Obj prod_data # ys)) cmap st =
          (Return (), \<lparr>db = s',
             logger = logger st @ [(INFO, ProcessingProducts (Suc (length (xs @ ys))))] @
               missing_category_warnings cmap (xs @ Obj prod_data # ys) @
               [(INFO, ProductsLoaded n (Suc k))]\<rparr>)
       \<and> (\<exists>new. products (stored s') = products (work (db st)) @ new)"
    using nk both [of "logger st"] pre unfolding st by blast
  have step: "\<exists>st'. product_step cmap (Obj prod_data) v st =
            (Return (v\<lparr>skipped_count := skipped_count v + 1\<rparr>), st')
          \<and> (db st' = db st \<or> db st' = before_query (db st))
          \<and> stored (db st') = stored (db st)"
    using existing_product_step [OF assms(1,2), of cmap v] by blast
  from whole step show ?thesis by (rule conjI)
qed

text \<open>
  The stored Dune costs 15.5 with stock 10; the file offers it at 20 with stock 5, and
  after the load the table holds the one row it held.
\<close>

theorem existing_product_never_updated_witness:
  "\<lparr>prod_id = 1, prod_name = Some ''Dune'', prod_price = Some ''15.5'', prod_stock = Some 10, category_id = 1\<rparr>
     \<in> set (products (work (db
     \<lparr>db = SessionLocal False
        \<lparr>categories = [\<lparr>cat_id = 1, cat_name = Some ''Books''\<rparr>],
         products = [\<lparr>prod_id = 1, prod_name = Some ''Dune'', prod_price = Some ''15.5'',
                      prod_stock = Some 10, category_id = 1\<rparr>]\<rparr>,
      logger = []\<rparr>)))
 \<and> load_products (Json [Obj \<lparr>name = Some ''Dune'', price = Some ''20'', stock = Some 5, category = Some ''Books''\<rparr>]) [(Some ''Books'', 1)]
     \<lparr>db = SessionLocal False
        \<lparr>categories = [\<lparr>cat_id = 1, cat_name = Some ''Books''\<rparr>],
         products = [\<lparr>prod_id = 1, prod_name = Some ''Dune'', prod_price = Some ''15.5'',
                      prod_stock = Some 10, category_id = 1\<rparr>]\<rparr>,
      logger = []\<rparr> =
     (Return (),
      \<lparr>db = SessionLocal False
        \<lparr>categories = [\<lparr>cat_id = 1, cat_name = Some ''Books''\<rparr>],
         products = [\<lparr>prod_id = 1, prod_name = Some ''Dune'', prod_price = Some ''15.5'',
                      prod_stock = Some 10, category_id = 1\<rparr>]\<rparr>,
       logger = [(INFO, ProcessingProducts 1), (INFO, ProductsLoaded 0 1)]\<rparr>)"
proof -
  have h1: "\<lparr>prod_id = 1, prod_name = Some ''Dune'', prod_price = Some ''15.5'', prod_stock = Some 10, category_id = 1\<rparr>
     \<in> set (products (work (db
     \<lparr>db = SessionLocal False
        \<lparr>categories = [\<lparr>cat_id = 1, cat_name = Some ''Books''\<rparr>],
         products = [\<lparr>prod_id = 1, prod_name = Some ''Dune'', prod_price = Some ''15.5'',
                      prod_stock = Some 10, category_id = 1\<rparr>]\<rparr>,
      logger = []\<rparr>)))"
    by (simp add: SessionLocal_def)
  have h2: "prod_name \<lparr>prod_id = 1, prod_name = Some ''Dune'', prod_price = Some ''15.5'', prod_stock = Some 10, category_id = 1\<rparr> =
     name \<lparr>name = Some ''Dune'', price = Some ''20'', stock = Some 5, category = Some ''Books''\<rparr>"
    by simp
  have h3: "NonObj \<notin> set (([] :: string prod_data item list) @ [])"
    by simp
  note inst = existing_product_never_updated [OF h1 h2 h3, where cmap = "[(Some ''Books'', 1)]"]
  have e2: "load_products (Json [Obj \<lparr>name = Some ''Dune'', price = Some ''20'', stock = Some 5, category = Some ''Books''\<rparr>]) [(Some ''Books'', 1)]
     \<lparr>db = SessionLocal False
        \<lparr>categories = [\<lparr>cat_id = 1, cat_name = Some ''Books''\<rparr>],
         products = [\<lparr>prod_id = 1, prod_name = Some ''Dune'', prod_price = Some ''15.5'',
                      prod_stock = Some 10, category_id = 1\<rparr>]\<rparr>,
      logger = []\<rparr> =
     (Return (),
      \<lparr>db = SessionLocal False
        \<lparr>categories = [\<lparr>cat_id = 1, cat_name = Some ''Books''\<rparr>],
         products = [\<lparr>prod_id = 1, prod_name = Some ''Dune'', prod_price = Some ''15.5'',
                      prod_stock = Some 10, category_id = 1\<rparr>]\<rparr>,
       logger = [(INFO, ProcessingProducts 1), (INFO, ProductsLoaded 0 1)]\<rparr>)"
    using inst by (simp add: session_ops logger_ops Let_def)
  from h1 e2 show ?thesis by (rule conjI)
qed

text \<open>
  The categories loop writes nothing to the log, and on a session with nothing pending it
  leaves nothing pending: every category it adds is flushed at once.
\<close>

lemma categories_loop_append:
  "categories_loop (xs @ ys) v st =
     (case categories_loop xs v st of
        (Return v1, st1) \<Rightarrow> categories_loop ys v1 st1
      | (Raise e, st1) \<Rightarrow> (Raise e, st1))"
proof (induction xs arbitrary: v st)
  case Nil
  then show ?case by simp
next
  case (Cons x xs)
  obtain r st1 where step: "category_step x v st = (r, st1)" by (cases "category_step x v st")
  show ?case
  proof (cases r)
    case (Return v1)
    then show ?thesis using step Cons.IH [of v1 st1] by simp
  next
    case (Raise e)
    then show ?thesis using step by simp
  qed
qed

lemma category_step_logger:
  assumes "category_step x v \<lparr>db = s, logger = l\<rparr> = (r, st')"
  shows "logger st' = l \<and> category_step x v \<lparr>db = s, logger = l'\<rparr> = (r, st'\<lparr>logger := l'\<rparr>)"
proof (cases x)
  case NonObj
  with assms show ?thesis by auto
next
  case (Obj c)
  with assms show ?thesis
    by (auto simp: Let_def split: if_splits prod.splits option.splits)
qed

lemma categories_loop_logger:
  assumes "categories_loop xs v \<lparr>db = s, logger = l\<rparr> = (r, st')"
  shows "logger st' = l \<and> categories_loop xs v \<lparr>db = s, logger = l'\<rparr> = (r, st'\<lparr>logger := l'\<rparr>)"
  using assms
proof (induction xs arbitrary: v s)
  case Nil
  then show ?case by auto
next
  case (Cons x xs)
  obtain r1 st1 where step: "category_step x v \<lparr>db = s, logger = l\<rparr> = (r1, st1)"
    by (cases "category_step x v \<lparr>db = s, logger = l\<rparr>")
  have lg: "logger st1 = l" and step': "category_step x v \<lparr>db = s, logger = l'\<rparr> = (r1, st1\<lparr>logger := l'\<rparr>)"
    using category_step_logger [OF step] by simp_all
  have st1: "st1 = \<lparr>db = db st1, logger = l\<rparr>" using lg by simp
  have st1': "st1\<lparr>logger := l'\<rparr> = \<lparr>db = db st1, logger = l'\<rparr>" by simp
  show ?case
  proof (cases r1)
    case (Return v1)
    then have "categories_loop xs v1 \<lparr>db = db st1, logger = l\<rparr> = (r, st')"
      using Cons.prems step st1 by simp
    then have "logger st' = l \<and> categories_loop xs v1 \<lparr>db = db st1, logger = l'\<rparr> = (r, st'\<lparr>logger := l'\<rparr>)"
      by (rule Cons.IH)
    then show ?thesis using step' Return st1' by simp
  next
    case (Raise e)
    then show ?thesis using Cons.prems step step' lg by auto
  qed
qed

lemma category_step_pending:
  assumes "pending (db st) = []"
  shows "pending (db (snd (category_step x v st))) = []"
proof (cases x)
  case NonObj
  then show ?thesis using assms by simp
next
  case (Obj c)
  have bq: "before_query (db st) = db st" using assms by (rule before_query_nothing)
  show ?thesis using Obj assms bq
    by (auto simp: Let_def query_category_def db_flush_def db_add_def
        split: prod.splits option.splits)
qed

lemma categories_loop_pending:
  "pending (db st) = [] \<Longrightarrow> pending (db (snd (categories_loop xs v st))) = []"
proof (induction xs arbitrary: v st)
  case Nil
  then show ?case by simp
next
  case (Cons x xs)
  obtain r st1 where step: "category_step x v st = (r, st1)" by (cases "category_step x v st")
  have p1: "pending (db st1) = []"
    using category_step_pending [OF Cons.prems, of x v] step by simp
  show ?case
  proof (cases r)
    case (Return v1)
    then show ?thesis using step Cons.IH [OF p1, of v1] by simp
  next
    case (Raise e)
    then show ?thesis using step p1 by simp
  qed
qed

lemma db_commit_no_pending: "pending s = [] \<Longrightarrow> db_commit s = s\<lparr>stored := work s\<rparr>"
  by (simp add: db_commit_def db_flush_nothing)

lemma load_categories_unfold:
  assumes "load_categories (Json xs) \<lparr>db = s, logger = l\<rparr> = (Return cmap0, st0)"
  shows "\<exists>v1 s1. categories_loop xs \<lparr>category_map = [], new_count = 0, existing_count = 0\<rparr>
            \<lparr>db = s, logger = l @ [(INFO, ProcessingCategories (length xs))]\<rparr> =
            (Return v1, \<lparr>db = s1, logger = l @ [(INFO, ProcessingCategories (length xs))]\<rparr>)
         \<and> cmap0 = category_map v1
         \<and> st0 = \<lparr>db = db_commit s1,
                  logger = l @ [(INFO, ProcessingCategories (length xs)),
                                (INFO, CategoriesLoaded (new_count v1) (existing_count v1))]\<rparr>"
proof -
  let ?v0 = "\<lparr>category_map = [], new_count = 0, existing_count = 0\<rparr>"
  let ?st = "\<lparr>db = s, logger = l @ [(INFO, ProcessingCategories (length xs))]\<rparr>"
  obtain r st1 where loop: "categories_loop xs ?v0 ?st = (r, st1)"
    by (cases "categories_loop xs ?v0 ?st")
  have lg: "logger st1 = l @ [(INFO, ProcessingCategories (length xs))]"
    using categories_loop_logger [OF loop] by simp
  then have st1: "st1 = \<lparr>db = db st1, logger = l @ [(INFO, ProcessingCategories (length xs))]\<rparr>"
    by simp
  show ?thesis
  proof (cases r)
    case (Raise e)
    then show ?thesis using assms loop by (simp add: logger_info_def)
  next
    case (Return v1)
    have "cmap0 = category_map v1" and "st0 = \<lparr>db = db_commit (db st1),
                  logger = l @ [(INFO, ProcessingCategories (length xs)),
                                (INFO, CategoriesLoaded (new_count v1) (existing_count v1))]\<rparr>"
      using assms loop Return lg by (auto simp: logger_info_def)
    then show ?thesis using loop Return st1 by metis
  qed
qed

lemma load_categories_snoc:
  assumes "categories_loop xs \<lparr>category_map = [], new_count = 0, existing_count = 0\<rparr>
            \<lparr>db = s, logger = l @ [(INFO, ProcessingCategories (length xs))]\<rparr> =
            (Return v1, \<lparr>db = s1, logger = l @ [(INFO, ProcessingCategories (length xs))]\<rparr>)"
      and "\<And>l'. category_step (Obj r) v1 \<lparr>db = s1, logger = l'\<rparr> = (Return v2, \<lparr>db = s2, logger = l'\<rparr>)"
  shows "load_categories (Json (xs @ [Obj r])) \<lparr>db = s, logger = l\<rparr> =
     (Return (category_map v2),
      \<lparr>db = db_commit s2,
       logger = l @ [(INFO, ProcessingCategories (Suc (length xs))),
                     (INFO, CategoriesLoaded (new_count v2) (existing_count v2))]\<rparr>)"
proof -
  let ?v0 = "\<lparr>category_map = [], new_count = 0, existing_count = 0\<rparr>"
  let ?l' = "l @ [(INFO, ProcessingCategories (Suc (length xs)))]"
  have "categories_loop xs ?v0 \<lparr>db = s, logger = ?l'\<rparr> =
        (Return v1, \<lparr>db = s1, logger = l @ [(INFO, ProcessingCategories (length xs))]\<rparr>\<lparr>logger := ?l'\<rparr>)"
    using categories_loop_logger [OF assms(1)] by blast
  then have "categories_loop xs ?v0 \<lparr>db = s, logger = ?l'\<rparr> = (Return v1, \<lparr>db = s1, logger = ?l'\<rparr>)"
    by simp
  then have "categories_loop (xs @ [Obj r]) ?v0 \<lparr>db = s, logger = ?l'\<rparr> =
        (Return v2, \<lparr>db = s2, logger = ?l'\<rparr>)"
    by (simp add: categories_loop_append assms(2) del: category_step.simps)
  then show ?thesis by (simp add: logger_info_def)
qed

text \<open>
  C5. Let \<open>load_categories\<close>, on a session with nothing pending, have read a file \<open>xs\<close> to
  its end, returned the map \<open>cmap0\<close>, logged \<open>n\<close> new and \<open>e\<close> existing categories and
  committed. What it does with one more record \<open>r\<close> at the end of the file:
  \<^item> if \<open>r\<close> has no name, a null name or an empty name, it returns the same map, leaves
    the same session and logs the same counts: the record is skipped silently and counted
    nowhere;
  \<^item> if no committed category row has the name, it commits one more row, with that name
    and a fresh identifier, logs one more new category, and returns the map with the name
    set to that identifier;
  \<^item> if a row has the name, it commits nothing more, logs one more existing category,
    and returns the map with the name set to the identifier of the first such row;
  \<^item> in both cases the entry is set with \<open>AList.update\<close>, which replaces what an earlier
    record stored under the name;
  \<^item> the loop itself commits nothing: the identifier of a new row is there after the
    flush, before \<^verbatim>\<open>db.commit()\<close>.
\<close>

theorem category_record_loaded:
  fixes st :: "'p state" and r :: cat_data
  defines "P n \<equiv> (INFO, ProcessingCategories n)"
  assumes "pending (db st) = []"
      and "load_categories (Json xs) st = (Return cmap0, st0)"
  shows "\<exists>n e. logger st0 = logger st @ [P (length xs), (INFO, CategoriesLoaded n e)]
     \<and> work (db st0) = stored (db st0) \<and> pending (db st0) = []
     \<and> (\<not> truthy (c_name r) \<longrightarrow>
          load_categories (Json (xs @ [Obj r])) st =
            (Return cmap0,
             \<lparr>db = db st0,
              logger = logger st @ [P (Suc (length xs)), (INFO, CategoriesLoaded n e)]\<rparr>))
     \<and> (truthy (c_name r) \<and> c_name r \<notin> cat_name ` set (categories (stored (db st0))) \<longrightarrow>
          load_categories (Json (xs @ [Obj r])) st =
            (Return (AList.update (c_name r) (next_id (map cat_id (categories (stored (db st0))))) cmap0),
             \<lparr>db = (db st0)
                \<lparr>stored := (stored (db st0))\<lparr>categories := categories (stored (db st0)) @
                    [\<lparr>cat_id = next_id (map cat_id (categories (stored (db st0)))),
                      cat_name = c_name r\<rparr>]\<rparr>,
                 work := (stored (db st0))\<lparr>categories := categories (stored (db st0)) @
                    [\<lparr>cat_id = next_id (map cat_id (categories (stored (db st0)))),
                      cat_name = c_name r\<rparr>]\<rparr>\<rparr>,
              logger = logger st @ [P (Suc (length xs)), (INFO, CategoriesLoaded (Suc n) e)]\<rparr>)
          \<and> next_id (map cat_id (categories (stored (db st0))))
              \<notin> cat_id ` set (categories (stored (db st0))))
     \<and> (\<forall>c. truthy (c_name r) \<and>
            find (\<lambda>c. cat_name c = c_name r) (categories (stored (db st0))) = Some c \<longrightarrow>
          load_categories (Json (xs @ [Obj r])) st =
            (Return (AList.update (c_name r) (cat_id c) cmap0),
             \<lparr>db = db st0,
              logger = logger st @ [P (Suc (length xs)), (INFO, CategoriesLoaded n (Suc e))]\<rparr>))
     \<and> stored (db (snd (categories_loop (xs @ [Obj r]) v st))) = stored (db st)"
proof -
  have st: "\<lparr>db = db st, logger = logger st\<rparr> = st" by simp
  let ?l = "logger st"
  obtain v1 s1 where loop: "categories_loop xs \<lparr>category_map = [], new_count = 0, existing_count = 0\<rparr>
            \<lparr>db = db st, logger = ?l @ [(INFO, ProcessingCategories (length xs))]\<rparr> =
            (Return v1, \<lparr>db = s1, logger = ?l @ [(INFO, ProcessingCategories (length xs))]\<rparr>)"
    and cmap0: "cmap0 = category_map v1"
    and st0: "st0 = \<lparr>db = db_commit s1,
                  logger = ?l @ [(INFO, ProcessingCategories (length xs)),
                                (INFO, CategoriesLoaded (new_count v1) (existing_count v1))]\<rparr>"
    using load_categories_unfold [of xs "db st" ?l cmap0 st0] assms(3) st by auto
  have p1: "pending s1 = []"
    using categories_loop_pending [of "\<lparr>db = db st, logger = ?l @ [(INFO, ProcessingCategories (length xs))]\<rparr>"
        xs "\<lparr>category_map = [], new_count = 0, existing_count = 0\<rparr>"] assms(2) loop by simp
  have c1: "db_commit s1 = s1\<lparr>stored := work s1\<rparr>" using p1 by (rule db_commit_no_pending)
  have bq: "before_query s1 = s1" using p1 by (rule before_query_nothing)
  have fl: "snd (db_flush s1) = s1" using p1 by (simp add: db_flush_nothing)
  have D: "stored (db st0) = work s1" "db st0 = s1\<lparr>stored := work s1\<rparr>"
    using st0 c1 by simp_all
  note snoc = load_categories_snoc [OF loop, of r, unfolded st]
  \<comment> \<open>a record without a name\<close>
  have nameless: "\<not> truthy (c_name r) \<Longrightarrow>
      load_categories (Json (xs @ [Obj r])) st =
        (Return cmap0,
         \<lparr>db = db st0,
          logger = ?l @ [P (Suc (length xs)), (INFO, CategoriesLoaded (new_count v1) (existing_count v1))]\<rparr>)"
  proof -
    assume f: "\<not> truthy (c_name r)"
    have "\<And>l'. category_step (Obj r) v1 \<lparr>db = s1, logger = l'\<rparr> = (Return v1, \<lparr>db = s1, logger = l'\<rparr>)"
      using f by simp
    from snoc [OF this] show ?thesis using cmap0 D c1 by (simp add: P_def)
  qed
  \<comment> \<open>a name that no category row has\<close>
  let ?cid = "next_id (map cat_id (categories (work s1)))"
  let ?W = "(work s1)\<lparr>categories := categories (work s1) @ [\<lparr>cat_id = ?cid, cat_name = c_name r\<rparr>]\<rparr>"
  have fresh: "truthy (c_name r) \<and> c_name r \<notin> cat_name ` set (categories (work s1)) \<Longrightarrow>
      load_categories (Json (xs @ [Obj r])) st =
        (Return (AList.update (c_name r) ?cid cmap0),
         \<lparr>db = s1\<lparr>stored := ?W, work := ?W\<rparr>,
          logger = ?l @ [P (Suc (length xs)), (INFO, CategoriesLoaded (Suc (new_count v1)) (existing_count v1))]\<rparr>)"
  proof -
    assume a: "truthy (c_name r) \<and> c_name r \<notin> cat_name ` set (categories (work s1))"
    have "\<And>l'. category_step (Obj r) v1 \<lparr>db = s1, logger = l'\<rparr> =
        (Return (v1\<lparr>category_map := AList.update (c_name r) ?cid (category_map v1),
                    new_count := new_count v1 + 1\<rparr>),
         \<lparr>db = s1\<lparr>work := ?W\<rparr>, logger = l'\<rparr>)"
      using new_category_step [of r "\<lparr>db = s1, logger = l'\<rparr>" v1 for l'] a bq fl by simp
    from snoc [OF this] have "load_categories (Json (xs @ [Obj r])) st =
        (Return (AList.update (c_name r) ?cid (category_map v1)),
         \<lparr>db = db_commit (s1\<lparr>work := ?W\<rparr>),
          logger = ?l @ [(INFO, ProcessingCategories (Suc (length xs))),
                         (INFO, CategoriesLoaded (Suc (new_count v1)) (existing_count v1))]\<rparr>)"
      by simp
    moreover have "db_commit (s1\<lparr>work := ?W\<rparr>) = s1\<lparr>stored := ?W, work := ?W\<rparr>"
      using p1 by (simp add: db_commit_no_pending)
    ultimately show ?thesis using cmap0 by (simp add: P_def)
  qed
  \<comment> \<open>a name that a category row has\<close>
  have old: "truthy (c_name r) \<and> find (\<lambda>c. cat_name c = c_name r) (categories (work s1)) = Some c \<Longrightarrow>
      load_categories (Json (xs @ [Obj r])) st =
        (Return (AList.update (c_name r) (cat_id c) cmap0),
         \<lparr>db = db st0,
          logger = ?l @ [P (Suc (length xs)), (INFO, CategoriesLoaded (new_count v1) (Suc (existing_count v1)))]\<rparr>)" for c
  proof -
    assume a: "truthy (c_name r) \<and> find (\<lambda>c. cat_name c = c_name r) (categories (work s1)) = Some c"
    have "\<And>l'. category_step (Obj r) v1 \<lparr>db = s1, logger = l'\<rparr> =
        (Return (v1\<lparr>category_map := AList.update (c_name r) (cat_id c) (category_map v1),
                    existing_count := existing_count v1 + 1\<rparr>),
         \<lparr>db = s1, logger = l'\<rparr>)"
      using existing_category_step [of r "\<lparr>db = s1, logger = l'\<rparr>" c v1 for l'] a bq by simp
    from snoc [OF this] show ?thesis using cmap0 D c1 by (simp add: P_def)
  qed
  have lg: "logger st0 = ?l @ [P (length xs), (INFO, CategoriesLoaded (new_count v1) (existing_count v1))]"
    using st0 by (simp add: P_def)
  have cl: "work (db st0) = stored (db st0)" "pending (db st0) = []"
    using D p1 by simp_all
  have fr: "?cid \<notin> cat_id ` set (categories (work s1))"
    using next_id_fresh [of "map cat_id (categories (work s1))"] by simp
  have eqW: "(db st0)\<lparr>stored := ?W, work := ?W\<rparr> = s1\<lparr>stored := ?W, work := ?W\<rparr>"
    using D by simp
  show ?thesis
    apply (rule exI [of _ "new_count v1"])
    apply (rule exI [of _ "existing_count v1"])
    using lg cl nameless fresh old fr eqW categories_loop_stored [of "xs @ [Obj r]" v st]
    unfolding D(1)
    by auto
qed

text \<open>After a file that names Books: a nameless record, Toys, and Books again.\<close>

theorem category_record_loaded_witness:
  "load_categories (Json [Obj \<lparr>c_name = Some ''Books''\<rparr>]) \<lparr>db = SessionLocal True (\<lparr>categories = [], products = []\<rparr> :: string database), logger = []\<rparr> =
     (Return [(Some ''Books'', 1)],
      \<lparr>db = \<lparr>stored = \<lparr>categories = [\<lparr>cat_id = 1, cat_name = Some ''Books''\<rparr>], products = []\<rparr>,
              work = \<lparr>categories = [\<lparr>cat_id = 1, cat_name = Some ''Books''\<rparr>], products = []\<rparr>,
              pending = [], autoflush = True, closed = False\<rparr>,
       logger = [(INFO, ProcessingCategories 1), (INFO, CategoriesLoaded 1 0)]\<rparr>)
 \<and> load_categories (Json ([Obj \<lparr>c_name = Some ''Books''\<rparr>] @ [Obj \<lparr>c_name = None\<rparr>])) \<lparr>db = SessionLocal True (\<lparr>categories = [], products = []\<rparr> :: string database), logger = []\<rparr> =
     (Return [(Some ''Books'', 1)],
      \<lparr>db = \<lparr>stored = \<lparr>categories = [\<lparr>cat_id = 1, cat_name = Some ''Books''\<rparr>], products = []\<rparr>,
              work = \<lparr>categories = [\<lparr>cat_id = 1, cat_name = Some ''Books''\<rparr>], products = []\<rparr>,
              pending = [], autoflush = True, closed = False\<rparr>,
       logger = [(INFO, ProcessingCategories 2), (INFO, CategoriesLoaded 1 0)]\<rparr>)
 \<and> load_categories (Json ([Obj \<lparr>c_name = Some ''Books''\<rparr>] @ [Obj \<lparr>c_name = Some ''Toys''\<rparr>])) \<lparr>db = SessionLocal True (\<lparr>categories = [], products = []\<rparr> :: string database), logger = []\<rparr> =
     (Return [(Some ''Books'', 1), (Some ''Toys'', 2)],
      \<lparr>db = \<lparr>stored = \<lparr>categories = [\<lparr>cat_id = 1, cat_name = Some ''Books''\<rparr>, \<lparr>cat_id = 2, cat_name = Some ''Toys''\<rparr>], products = []\<rparr>,
              work = \<lparr>categories = [\<lparr>cat_id = 1, cat_name = Some ''Books''\<rparr>, \<lparr>cat_id = 2, cat_name = Some ''Toys''\<rparr>], products = []\<rparr>,
              pending = [], autoflush = True, closed = False\<rparr>,
       logger = [(INFO, ProcessingCategories 2), (INFO, CategoriesLoaded 2 0)]\<rparr>)
 \<and> load_categories (Json ([Obj \<lparr>c_name = Some ''Books''\<rparr>] @ [Obj \<lparr>c_name = Some ''Books''\<rparr>])) \<lparr>db = SessionLocal True (\<lparr>categories = [], products = []\<rparr> :: string database), logger = []\<rparr> =
     (Return [(Some ''Books'', 1)],
      \<lparr>db = \<lparr>stored = \<lparr>categories = [\<lparr>cat_id = 1, cat_name = Some ''Books''\<rparr>], products = []\<rparr>,
              work = \<lparr>categories = [\<lparr>cat_id = 1, cat_name = Some ''Books''\<rparr>], products = []\<rparr>,
              pending = [], autoflush = True, closed = False\<rparr>,
       logger = [(INFO, ProcessingCategories 2), (INFO, CategoriesLoaded 1 1)]\<rparr>)"
proof -
  have h1: "pending (db \<lparr>db = SessionLocal True (\<lparr>categories = [], products = []\<rparr> :: string database), logger = []\<rparr>) = []"
    by (simp add: SessionLocal_def)
  have h2: "load_categories (Json [Obj \<lparr>c_name = Some ''Books''\<rparr>]) \<lparr>db = SessionLocal True (\<lparr>categories = [], products = []\<rparr> :: string database), logger = []\<rparr> =
     (Return [(Some ''Books'', 1)],
      \<lparr>db = \<lparr>stored = \<lparr>categories = [\<lparr>cat_id = 1, cat_name = Some ''Books''\<rparr>], products = []\<rparr>,
              work = \<lparr>categories = [\<lparr>cat_id = 1, cat_name = Some ''Books''\<rparr>], products = []\<rparr>,
              pending = [], autoflush = True, closed = False\<rparr>,
       logger = [(INFO, ProcessingCategories 1), (INFO, CategoriesLoaded 1 0)]\<rparr>)"
    by (simp add: session_ops logger_ops Let_def)
  note inst = category_record_loaded [OF h1 h2]
  have ea: "load_categories (Json ([Obj \<lparr>c_name = Some ''Books''\<rparr>] @ [Obj \<lparr>c_name = None\<rparr>])) \<lparr>db = SessionLocal True (\<lparr>categories = [], products = []\<rparr> :: string database), logger = []\<rparr> =
     (Return [(Some ''Books'', 1)],
      \<lparr>db = \<lparr>stored = \<lparr>categories = [\<lparr>cat_id = 1, cat_name = Some ''Books''\<rparr>], products = []\<rparr>,
              work = \<lparr>categories = [\<lparr>cat_id = 1, cat_name = Some ''Books''\<rparr>], products = []\<rparr>,
              pending = [], autoflush = True, closed = False\<rparr>,
       logger = [(INFO, ProcessingCategories 2), (INFO, CategoriesLoaded 1 0)]\<rparr>)"
    using inst [of "\<lparr>c_name = None\<rparr>"] by (simp add: session_ops logger_ops Let_def)
  have eb: "load_categories (Json ([Obj \<lparr>c_name = Some ''Books''\<rparr>] @ [Obj \<lparr>c_name = Some ''Toys''\<rparr>])) \<lparr>db = SessionLocal True (\<lparr>categories = [], products = []\<rparr> :: string database), logger = []\<rparr> =
     (Return [(Some ''Books'', 1), (Some ''Toys'', 2)],
      \<lparr>db = \<lparr>stored = \<lparr>categories = [\<lparr>cat_id = 1, cat_name = Some ''Books''\<rparr>, \<lparr>cat_id = 2, cat_name = Some ''Toys''\<rparr>], products = []\<rparr>,
              work = \<lparr>categories = [\<lparr>cat_id = 1, cat_name = Some ''Books''\<rparr>, \<lparr>cat_id = 2, cat_name = Some ''Toys''\<rparr>], products = []\<rparr>,
              pending = [], autoflush = True, closed = False\<rparr>,
       logger = [(INFO, ProcessingCategories 2), (INFO, CategoriesLoaded 2 0)]\<rparr>)"
    using inst [of "\<lparr>c_name = Some ''Toys''\<rparr>"] by (simp add: session_ops logger_ops Let_def)
  have ec: "load_categories (Json ([Obj \<lparr>c_name = Some ''Books''\<rparr>] @ [Obj \<lparr>c_name = Some ''Books''\<rparr>])) \<lparr>db = SessionLocal True (\<lparr>categories = [], products = []\<rparr> :: string database), logger = []\<rparr> =
     (Return [(Some ''Books'', 1)],
      \<lparr>db = \<lparr>stored = \<lparr>categories = [\<lparr>cat_id = 1, cat_name = Some ''Books''\<rparr>], products = []\<rparr>,
              work = \<lparr>categories = [\<lparr>cat_id = 1, cat_name = Some ''Books''\<rparr>], products = []\<rparr>,
              pending = [], autoflush = True, closed = False\<rparr>,
       logger = [(INFO, ProcessingCategories 2), (INFO, CategoriesLoaded 1 1)]\<rparr>)"
    using inst [of "\<lparr>c_name = Some ''Books''\<rparr>"] by (simp add: session_ops logger_ops Let_def)
  from h2 ea eb ec show ?thesis by (intro conjI)
qed

subsection \<open>An exception in a loader\<close>

lemma try_block_with:
  "try_block cf pf st = try_with (load_categories cf) (load_products pf) st"
  by (simp add: try_block_def try_with_def)

lemma try_with_first:
  "lc st = (Raise e, st1) \<Longrightarrow>
   try_with lc lp st = \<lparr>db = db_rollback (db st1), logger = logger st1 @ [(ERROR, ErrorOccurred e)]\<rparr>"
  by (simp add: try_with_def handler_result)

lemma try_with_second:
  "lc st = (Return cmap, st1) \<Longrightarrow> cmap \<noteq> [] \<Longrightarrow> lp cmap st1 = (Raise e, st2) \<Longrightarrow>
   try_with lc lp st = \<lparr>db = db_rollback (db st2), logger = logger st2 @ [(ERROR, ErrorOccurred e)]\<rparr>"
  by (simp add: try_with_def handler_result)

text \<open>
  C8. \<open>main\<close> is its \<^verbatim>\<open>try\<close> statement, then \<^verbatim>\<open>db.close()\<close>, then the completed line, with
  exit code 0; \<open>st0\<close> is the state in which it enters the \<^verbatim>\<open>try\<close> statement.
  \<^item> Whatever the first call is and whatever the second: when the first raises \<open>e\<close> in a
    state \<open>st1\<close>, or returns a non-empty map and the second raises \<open>e\<close> in \<open>st1\<close>, the
    \<^verbatim>\<open>try\<close> statement ends with \<open>e\<close> logged as an error after the log of \<open>st1\<close> and with
    the session of \<open>st1\<close> rolled back: what was flushed or staged and not committed is
    gone, the committed tables are untouched, and the session is not yet closed. This
    is so for every exception, every place it is raised at, and every state.
  \<^item> With the two loaders as the calls: when \<open>load_categories\<close> raises, the database
    after the rollback is \<open>d\<close>, as before the run; when \<open>load_products\<close> raises, it is the
    one \<open>load_categories\<close> committed.
  \<^item> On every path the session that \<open>main\<close> leaves is closed, with nothing pending and
    nothing uncommitted, and the last line of the log is the completed line.
\<close>

theorem exception_rolled_back:
  fixes af :: bool and d :: "'p database" and cf :: "cat_data json_file" and pf :: "'p prod_data json_file"
    and lc :: "'p state \<Rightarrow> (string option \<times> nat) list result \<times> 'p state"
    and lp :: "(string option \<times> nat) list \<Rightarrow> 'p state \<Rightarrow> unit result \<times> 'p state"
  defines "st0 \<equiv> \<lparr>db = SessionLocal af d, logger = [(INFO, Starting)]\<rparr>"
  shows
   "(\<forall>st e st1. lc st = (Raise e, st1) \<longrightarrow>
       try_with lc lp st =
         \<lparr>db = db_rollback (db st1), logger = logger st1 @ [(ERROR, ErrorOccurred e)]\<rparr>)
  \<and> (\<forall>st cmap st1 e st2. lc st = (Return cmap, st1) \<and> cmap \<noteq> [] \<and> lp cmap st1 = (Raise e, st2) \<longrightarrow>
       try_with lc lp st =
         \<lparr>db = db_rollback (db st2), logger = logger st2 @ [(ERROR, ErrorOccurred e)]\<rparr>)
  \<and> (\<forall>s :: 'p session. work (db_rollback s) = stored s \<and> pending (db_rollback s) = []
        \<and> stored (db_rollback s) = stored s \<and> closed (db_rollback s) = closed s)
  \<and> try_block cf pf st0 = try_with (load_categories cf) (load_products pf) st0
  \<and> main True af cf pf d =
       \<lparr>exit_code = 0, session = Some (db_close (db (try_block cf pf st0))),
        run_log = logger (try_block cf pf st0) @ [(INFO, Completed)]\<rparr>
  \<and> (\<forall>e st1. load_categories cf st0 = (Raise e, st1) \<longrightarrow>
       try_block cf pf st0 =
         \<lparr>db = db_rollback (db st1), logger = logger st1 @ [(ERROR, ErrorOccurred e)]\<rparr>
       \<and> main True af cf pf d =
         \<lparr>exit_code = 0, session = Some (db_close (db_rollback (db st1))),
          run_log = logger st1 @ [(ERROR, ErrorOccurred e), (INFO, Completed)]\<rparr>
       \<and> stored (db_rollback (db st1)) = d)
  \<and> (\<forall>cmap st1 e st2.
       load_categories cf st0 = (Return cmap, st1) \<and> cmap \<noteq> [] \<and>
       load_products pf cmap st1 = (Raise e, st2) \<longrightarrow>
       try_block cf pf st0 =
         \<lparr>db = db_rollback (db st2), logger = logger st2 @ [(ERROR, ErrorOccurred e)]\<rparr>
       \<and> main True af cf pf d =
         \<lparr>exit_code = 0, session = Some (db_close (db_rollback (db st2))),
          run_log = logger st2 @ [(ERROR, ErrorOccurred e), (INFO, Completed)]\<rparr>
       \<and> stored (db_rollback (db st2)) = stored (db st1))
  \<and> (\<exists>s lg. main True af cf pf d =
         \<lparr>exit_code = 0, session = Some s, run_log = lg @ [(INFO, Completed)]\<rparr>
       \<and> closed s \<and> pending s = [] \<and> work s = stored s)"
proof (intro conjI allI impI)
  fix st :: "'p state" and e st1
  assume "lc st = (Raise e, st1)"
  then show "try_with lc lp st =
         \<lparr>db = db_rollback (db st1), logger = logger st1 @ [(ERROR, ErrorOccurred e)]\<rparr>"
    by (rule try_with_first)
next
  fix st :: "'p state" and cmap st1 e st2
  assume "lc st = (Return cmap, st1) \<and> cmap \<noteq> [] \<and> lp cmap st1 = (Raise e, st2)"
  then show "try_with lc lp st =
         \<lparr>db = db_rollback (db st2), logger = logger st2 @ [(ERROR, ErrorOccurred e)]\<rparr>"
    using try_with_second [of lc st cmap st1 lp e st2] by blast
next
  fix s :: "'p session"
  show "work (db_rollback s) = stored s" "pending (db_rollback s) = []"
    "stored (db_rollback s) = stored s" "closed (db_rollback s) = closed s"
    by (simp_all add: db_rollback_def)
next
  show "try_block cf pf st0 = try_with (load_categories cf) (load_products pf) st0"
    by (rule try_block_with)
next
  show "main True af cf pf d =
       \<lparr>exit_code = 0, session = Some (db_close (db (try_block cf pf st0))),
        run_log = logger (try_block cf pf st0) @ [(INFO, Completed)]\<rparr>"
    unfolding st0_def by (rule main_connected)
next
  fix e st1
  assume a: "load_categories cf st0 = (Raise e, st1)"
  then show tb: "try_block cf pf st0 =
         \<lparr>db = db_rollback (db st1), logger = logger st1 @ [(ERROR, ErrorOccurred e)]\<rparr>"
    unfolding try_block_with by (rule try_with_first)
  then show "main True af cf pf d =
         \<lparr>exit_code = 0, session = Some (db_close (db_rollback (db st1))),
          run_log = logger st1 @ [(ERROR, ErrorOccurred e), (INFO, Completed)]\<rparr>"
    unfolding st0_def by (simp add: main_connected)
  have "stored (db st1) = stored (db st0)"
    using a by (rule load_categories_raise_stored)
  then show "stored (db_rollback (db st1)) = d"
    unfolding st0_def by (simp add: db_rollback_def SessionLocal_def)
next
  fix cmap st1 e st2
  assume a: "load_categories cf st0 = (Return cmap, st1) \<and> cmap \<noteq> [] \<and>
       load_products pf cmap st1 = (Raise e, st2)"
  then show tb: "try_block cf pf st0 =
         \<lparr>db = db_rollback (db st2), logger = logger st2 @ [(ERROR, ErrorOccurred e)]\<rparr>"
    unfolding try_block_with using try_with_second [of "load_categories cf" st0 cmap st1 "load_products pf" e st2]
    by blast
  then show "main True af cf pf d =
         \<lparr>exit_code = 0, session = Some (db_close (db_rollback (db st2))),
          run_log = logger st2 @ [(ERROR, ErrorOccurred e), (INFO, Completed)]\<rparr>"
    unfolding st0_def by (simp add: main_connected)
  have "stored (db st2) = stored (db st1)"
    using a load_products_raise_stored by blast
  then show "stored (db_rollback (db st2)) = stored (db st1)"
    by (simp add: db_rollback_def)
next
  show "\<exists>s lg. main True af cf pf d =
         \<lparr>exit_code = 0, session = Some s, run_log = lg @ [(INFO, Completed)]\<rparr>
       \<and> closed s \<and> pending s = [] \<and> work s = stored s"
    by (simp add: main_connected db_close_def)
qed

text \<open>
  A categories file whose second element is not an object: Books is flushed, then the
  loop raises. The \<^verbatim>\<open>try\<close> statement ends with the session open and Books gone from
  the tables of the transaction; \<open>main\<close> then closes it. Then a products file whose second
  element is not an object: the categories are committed, Dune is staged, the rollback
  drops Dune and keeps Books.
\<close>

theorem exception_rolled_back_witness:
  "load_categories (Json [Obj \<lparr>c_name = Some ''Books''\<rparr>, NonObj])
     \<lparr>db = SessionLocal True (\<lparr>categories = [], products = []\<rparr> :: string database), logger = [(INFO, Starting)]\<rparr> =
   (Raise AttributeError,
    \<lparr>db = \<lparr>stored = \<lparr>categories = [], products = []\<rparr>,
            work = \<lparr>categories = [\<lparr>cat_id = 1, cat_name = Some ''Books''\<rparr>], products = []\<rparr>,
            pending = [], autoflush = True, closed = False\<rparr>,
     logger = [(INFO, Starting), (INFO, ProcessingCategories 2)]\<rparr>)
 \<and> try_block (Json [Obj \<lparr>c_name = Some ''Books''\<rparr>, NonObj]) Absent
     \<lparr>db = SessionLocal True (\<lparr>categories = [], products = []\<rparr> :: string database), logger = [(INFO, Starting)]\<rparr> =
   \<lparr>db = \<lparr>stored = \<lparr>categories = [], products = []\<rparr>,
           work = \<lparr>categories = [], products = []\<rparr>,
           pending = [], autoflush = True, closed = False\<rparr>,
    logger = [(INFO, Starting), (INFO, ProcessingCategories 2),
              (ERROR, ErrorOccurred AttributeError)]\<rparr>
 \<and> main True True (Json [Obj \<lparr>c_name = Some ''Books''\<rparr>, NonObj]) Absent (\<lparr>categories = [], products = []\<rparr> :: string database) =
   \<lparr>exit_code = 0,
    session = Some \<lparr>stored = \<lparr>categories = [], products = []\<rparr>,
                    work = \<lparr>categories = [], products = []\<rparr>,
                    pending = [], autoflush = True, closed = True\<rparr>,
    run_log = [(INFO, Starting), (INFO, ProcessingCategories 2),
               (ERROR, ErrorOccurred AttributeError), (INFO, Completed)]\<rparr>
 \<and> try_block (Json [Obj \<lparr>c_name = Some ''Books''\<rparr>])
     (Json [Obj \<lparr>name = Some ''Dune'', price = Some ''15.5'', stock = Some 10, category = Some ''Books''\<rparr>,
            NonObj])
     \<lparr>db = SessionLocal False (\<lparr>categories = [], products = []\<rparr> :: string database), logger = [(INFO, Starting)]\<rparr> =
   \<lparr>db = \<lparr>stored = \<lparr>categories = [\<lparr>cat_id = 1, cat_name = Some ''Books''\<rparr>], products = []\<rparr>,
            work = \<lparr>categories = [\<lparr>cat_id = 1, cat_name = Some ''Books''\<rparr>], products = []\<rparr>,
            pending = [], autoflush = False, closed = False\<rparr>,
    logger = [(INFO, Starting), (INFO, ProcessingCategories 1), (INFO, CategoriesLoaded 1 0),
              (INFO, ProcessingProducts 2), (ERROR, ErrorOccurred AttributeError)]\<rparr>
 \<and> main True False (Json [Obj \<lparr>c_name = Some ''Books''\<rparr>])
     (Json [Obj \<lparr>name = Some ''Dune'', price = Some ''15.5'', stock = Some 10, category = Some ''Books''\<rparr>,
            NonObj]) (\<lparr>categories = [], products = []\<rparr> :: string database) =
   \<lparr>exit_code = 0,
    session = Some \<lparr>stored = \<lparr>categories = [\<lparr>cat_id = 1, cat_name = Some ''Books''\<rparr>], products = []\<rparr>,
                    work = \<lparr>categories = [\<lparr>cat_id = 1, cat_name = Some ''Books''\<rparr>], products = []\<rparr>,
                    pending = [], autoflush = False, closed = True\<rparr>,
    run_log = [(INFO, Starting), (INFO, ProcessingCategories 1), (INFO, CategoriesLoaded 1 0),
               (INFO, ProcessingProducts 2),
               (ERROR, ErrorOccurred AttributeError), (INFO, Completed)]\<rparr>"
proof -
  have h1: "load_categories (Json [Obj \<lparr>c_name = Some ''Books''\<rparr>, NonObj])
     \<lparr>db = SessionLocal True (\<lparr>categories = [], products = []\<rparr> :: string database), logger = [(INFO, Starting)]\<rparr> =
   (Raise AttributeError,
    \<lparr>db = \<lparr>stored = \<lparr>categories = [], products = []\<rparr>,
            work = \<lparr>categories = [\<lparr>cat_id = 1, cat_name = Some ''Books''\<rparr>], products = []\<rparr>,
            pending = [], autoflush = True, closed = False\<rparr>,
     logger = [(INFO, Starting), (INFO, ProcessingCategories 2)]\<rparr>)"
    by (simp add: session_ops logger_ops Let_def)
  note i1 = exception_rolled_back [where af = True and d = "(\<lparr>categories = [], products = []\<rparr> :: string database)" and pf = Absent
        and cf = "(Json [Obj \<lparr>c_name = Some ''Books''\<rparr>, NonObj])", THEN conjunct2, THEN conjunct2, THEN conjunct2, THEN conjunct2,
        THEN conjunct2, THEN conjunct1, rule_format, OF h1]
  have t1: "try_block (Json [Obj \<lparr>c_name = Some ''Books''\<rparr>, NonObj]) Absent
     \<lparr>db = SessionLocal True (\<lparr>categories = [], products = []\<rparr> :: string database), logger = [(INFO, Starting)]\<rparr> =
   \<lparr>db = \<lparr>stored = \<lparr>categories = [], products = []\<rparr>,
           work = \<lparr>categories = [], products = []\<rparr>,
           pending = [], autoflush = True, closed = False\<rparr>,
    logger = [(INFO, Starting), (INFO, ProcessingCategories 2),
              (ERROR, ErrorOccurred AttributeError)]\<rparr>"
    using i1 by (simp add: db_rollback_def)
  have m1: "main True True (Json [Obj \<lparr>c_name = Some ''Books''\<rparr>, NonObj]) Absent (\<lparr>categories = [], products = []\<rparr> :: string database) =
   \<lparr>exit_code = 0,
    session = Some \<lparr>stored = \<lparr>categories = [], products = []\<rparr>,
                    work = \<lparr>categories = [], products = []\<rparr>,
                    pending = [], autoflush = True, closed = True\<rparr>,
    run_log = [(INFO, Starting), (INFO, ProcessingCategories 2),
               (ERROR, ErrorOccurred AttributeError), (INFO, Completed)]\<rparr>"
    using i1 by (simp add: db_close_def db_rollback_def)
  have h2: "load_categories (Json [Obj \<lparr>c_name = Some ''Books''\<rparr>])
     \<lparr>db = SessionLocal False (\<lparr>categories = [], products = []\<rparr> :: string database), logger = [(INFO, Starting)]\<rparr> =
   (Return [(Some ''Books'', 1)],
    \<lparr>db = \<lparr>stored = \<lparr>categories = [\<lparr>cat_id = 1, cat_name = Some ''Books''\<rparr>], products = []\<rparr>,
            work = \<lparr>categories = [\<lparr>cat_id = 1, cat_name = Some ''Books''\<rparr>], products = []\<rparr>,
            pending = [], autoflush = False, closed = False\<rparr>,
     logger = [(INFO, Starting), (INFO, ProcessingCategories 1), (INFO, CategoriesLoaded 1 0)]\<rparr>)
   \<and> [(Some ''Books'', 1::nat)] \<noteq> []
   \<and> load_products
     (Json [Obj \<lparr>name = Some ''Dune'', price = Some ''15.5'', stock = Some 10, category = Some ''Books''\<rparr>,
            NonObj])
     [(Some ''Books'', 1)]
     \<lparr>db = \<lparr>stored = \<lparr>categories = [\<lparr>cat_id = 1, cat_name = Some ''Books''\<rparr>], products = []\<rparr>,
            work = \<lparr>categories = [\<lparr>cat_id = 1, cat_name = Some ''Books''\<rparr>], products = []\<rparr>,
            pending = [], autoflush = False, closed = False\<rparr>,
     logger = [(INFO, Starting), (INFO, ProcessingCategories 1), (INFO, CategoriesLoaded 1 0)]\<rparr> =
   (Raise AttributeError,
    \<lparr>db = \<lparr>stored = \<lparr>categories = [\<lparr>cat_id = 1, cat_name = Some ''Books''\<rparr>], products = []\<rparr>,
            work = \<lparr>categories = [\<lparr>cat_id = 1, cat_name = Some ''Books''\<rparr>], products = []\<rparr>,
            pending = [ProductModel (Some ''Dune'') (Some ''15.5'') (Some 10) 1], autoflush = False, closed = False\<rparr>,
     logger = [(INFO, Starting), (INFO, ProcessingCategories 1), (INFO, CategoriesLoaded 1 0),
               (INFO, ProcessingProducts 2)]\<rparr>)"
    by (simp add: session_ops logger_ops Let_def)
  note i2 = exception_rolled_back [where af = False and d = "(\<lparr>categories = [], products = []\<rparr> :: string database)"
        and cf = "(Json [Obj \<lparr>c_name = Some ''Books''\<rparr>])"
        and pf = "(Json [Obj \<lparr>name = Some ''Dune'', price = Some ''15.5'', stock = Some 10, category = Some ''Books''\<rparr>,
            NonObj])",
        THEN conjunct2, THEN conjunct2, THEN conjunct2, THEN conjunct2,
        THEN conjunct2, THEN conjunct2, THEN conjunct1, rule_format, OF h2]
  have t2: "try_block (Json [Obj \<lparr>c_name = Some ''Books''\<rparr>])
     (Json [Obj \<lparr>name = Some ''Dune'', price = Some ''15.5'', stock = Some 10, category = Some ''Books''\<rparr>,
            NonObj])
     \<lparr>db = SessionLocal False (\<lparr>categories = [], products = []\<rparr> :: string database), logger = [(INFO, Starting)]\<rparr> =
   \<lparr>db = \<lparr>stored = \<lparr>categories = [\<lparr>cat_id = 1, cat_name = Some ''Books''\<rparr>], products = []\<rparr>,
            work = \<lparr>categories = [\<lparr>cat_id = 1, cat_name = Some ''Books''\<rparr>], products = []\<rparr>,
            pending = [], autoflush = False, closed = False\<rparr>,
    logger = [(INFO, Starting), (INFO, ProcessingCategories 1), (INFO, CategoriesLoaded 1 0),
              (INFO, ProcessingProducts 2), (ERROR, ErrorOccurred AttributeError)]\<rparr>"
    using i2 by (simp add: db_rollback_def)
  have m2: "main True False (Json [Obj \<lparr>c_name = Some ''Books''\<rparr>])
     (Json [Obj \<lparr>name = Some ''Dune'', price = Some ''15.5'', stock = Some 10, category = Some ''Books''\<rparr>,
            NonObj]) (\<lparr>categories = [], products = []\<rparr> :: string database) =
   \<lparr>exit_code = 0,
    session = Some \<lparr>stored = \<lparr>categories = [\<lparr>cat_id = 1, cat_name = Some ''Books''\<rparr>], products = []\<rparr>,
                    work = \<lparr>categories = [\<lparr>cat_id = 1, cat_name = Some ''Books''\<rparr>], products = []\<rparr>,
                    pending = [], autoflush = False, closed = True\<rparr>,
    run_log = [(INFO, Starting), (INFO, ProcessingCategories 1), (INFO, CategoriesLoaded 1 0),
               (INFO, ProcessingProducts 2),
               (ERROR, ErrorOccurred AttributeError), (INFO, Completed)]\<rparr>"
    using i2 by (simp add: db_close_def db_rollback_def)
  from h1 t1 m1 t2 m2 show ?thesis by (intro conjI)
qed

subsection \<open>Running the full load twice\<close>













end
